theory Spec2Isabelle
  imports Main "HOL-Library.Word"
begin

section \<open>Gerrit change review: comment aggregation and diff retrieval\<close>

text \<open>
  A shallow embedding of \<^verbatim>\<open>service/gerrit/change_review.go\<close> and
  \<^verbatim>\<open>service/gerrit/change_diff.go\<close>.

  Conventions of the embedding:
  \<^item> A Go pointer that may be nil is an \<open>option\<close>; a nil dereference is the panic
    \<open>NilDereference\<close>, and every function that can panic returns \<open>panic + 'a\<close>.
  \<^item> protobuf \<^verbatim>\<open>int32\<close> is \<open>32 word\<close> read with \<open>sint\<close>; Go's \<^verbatim>\<open>int\<close> is taken at
    its 64-bit width, \<open>64 word\<close>, and the conversion \<^verbatim>\<open>int(x)\<close> is \<open>scast\<close>.
  \<^item> Go strings are byte sequences: \<open>string\<close>.
  \<^item> The mutex \<^verbatim>\<open>muComments\<close> is not modelled: \<^verbatim>\<open>Post\<close> and \<^verbatim>\<open>Flush\<close> are
    atomic steps on an explicit aggregator state, one critical section each.
  \<^item> The buffer holds the comments by value. \<^verbatim>\<open>Post\<close> stores the caller's pointer;
    the model is the code's behaviour when every \<^verbatim>\<open>Post\<close> receives its own comment
    object and the caller leaves it alone afterwards.
  \<^item> Code outside the two files is a parameter (\<open>Externals\<close>): the message
    formatter \<^verbatim>\<open>commentutil.GerritComment\<close>, the process environment, the Gerrit
    client's \<^verbatim>\<open>SetReview\<close> and the \<^verbatim>\<open>git\<close> subprocess.
\<close>

subsection \<open>Data model\<close>

type_synonym int32 = "32 word"
type_synonym go_int = "64 word"

datatype panic = NilDereference

text \<open>Go errors: an error of an external collaborator, or \<^verbatim>\<open>fmt.Errorf("<prefix>%w", err)\<close>.\<close>

datatype error = ExternalError string | Errorf string error

text \<open>The messages of \<^verbatim>\<open>proto/rdf\<close>, with the fields this package reads.\<close>

record Position =
  pos_Line :: int32
  pos_Column :: int32

record Range =
  rng_Start :: "Position option"
  rng_End :: "Position option"

record Suggestion =
  sug_Range :: "Range option"
  sug_Text :: string

record Location =
  loc_Path :: string
  loc_Range :: "Range option"

record Diagnostic =
  diag_Message :: string
  diag_Location :: "Location option"
  diag_Suggestions :: "Suggestion option list"

text \<open>\<^verbatim>\<open>filter.FilteredDiagnostic\<close> and \<^verbatim>\<open>reviewdog.Comment\<close>.\<close>

record FilteredDiagnostic =
  fd_Diagnostic :: "Diagnostic option"
  fd_ShouldReport :: bool
  fd_InDiffFile :: bool
  fd_FirstSuggestionInDiffContext :: bool

record Comment =
  cm_Result :: "FilteredDiagnostic option"
  cm_ToolName :: string

text \<open>
  The wire types of the \<^verbatim>\<open>gerrit\<close> client package, with the fields this package
  sets. A field the code leaves out of a composite literal has Go's zero value:
  \<open>0\<close>, the empty string, or nil (\<open>None\<close>) for the pointer \<^verbatim>\<open>CommentInput.Range\<close>.
\<close>

record CommentRange =
  cr_StartLine :: go_int
  cr_StartCharacter :: go_int
  cr_EndLine :: go_int
  cr_EndCharacter :: go_int

record FixReplacementInfo =
  fr_Path :: string
  fr_Replacement :: string
  fr_Range :: CommentRange

record FixSuggestionInfo =
  fs_Description :: string
  fs_Replacements :: "FixReplacementInfo list"

record CommentInput =
  ci_Line :: go_int
  ci_Range :: "CommentRange option"
  ci_Message :: string

record RobotCommentInput =
  rc_CommentInput :: CommentInput
  rc_RobotID :: string
  rc_RobotRunID :: string
  rc_URL :: string
  rc_FixSuggestions :: "FixSuggestionInfo list"

record ReviewInput =
  ri_RobotComments :: "string \<rightharpoonup> RobotCommentInput list"

text \<open>One recorded call of \<^verbatim>\<open>cli.SetReview(ctx, changeID, revisionID, review)\<close>.\<close>

record SetReviewCall =
  call_changeID :: string
  call_revisionID :: string
  call_review :: ReviewInput

record Externals =
  ext_GerritComment :: "Comment \<Rightarrow> string"
  ext_environ :: "string \<rightharpoonup> string"
  ext_SetReview :: "string \<Rightarrow> string \<Rightarrow> ReviewInput \<Rightarrow> error option"

record ChangeReviewCommenter =
  changeID :: string
  revisionID :: string
  postComments :: "Comment list"
  wd :: string

subsection \<open>Generated protobuf getters (nil-safe)\<close>

definition Diagnostic_GetLocation :: "Diagnostic option \<Rightarrow> Location option" where
  "Diagnostic_GetLocation d = (case d of None \<Rightarrow> None | Some x \<Rightarrow> diag_Location x)"

definition Location_GetPath :: "Location option \<Rightarrow> string" where
  "Location_GetPath l = (case l of None \<Rightarrow> [] | Some x \<Rightarrow> loc_Path x)"

definition Location_GetRange :: "Location option \<Rightarrow> Range option" where
  "Location_GetRange l = (case l of None \<Rightarrow> None | Some x \<Rightarrow> loc_Range x)"

definition Suggestion_GetRange :: "Suggestion option \<Rightarrow> Range option" where
  "Suggestion_GetRange s = (case s of None \<Rightarrow> None | Some x \<Rightarrow> sug_Range x)"

definition Range_GetStart :: "Range option \<Rightarrow> Position option" where
  "Range_GetStart r = (case r of None \<Rightarrow> None | Some x \<Rightarrow> rng_Start x)"

definition Position_GetLine :: "Position option \<Rightarrow> int32" where
  "Position_GetLine p = (case p of None \<Rightarrow> 0 | Some x \<Rightarrow> pos_Line x)"

text \<open>\<^verbatim>\<open>os.Getenv\<close>: the value of the variable, empty when it is unset.\<close>

definition Getenv :: "(string \<rightharpoonup> string) \<Rightarrow> string \<Rightarrow> string" where
  "Getenv environ k = (case environ k of None \<Rightarrow> [] | Some v \<Rightarrow> v)"

subsection \<open>Building the payload\<close>

text \<open>
  \<^verbatim>\<open>buildCommentRange\<close> reads \<^verbatim>\<open>s.Range.Start\<close> and \<^verbatim>\<open>s.Range.End\<close> by field access,
  not through the getters: a nil suggestion, range, start or end panics.
\<close>

definition buildCommentRange :: "Suggestion option \<Rightarrow> panic + CommentRange" where
  "buildCommentRange s =
     (case s of None \<Rightarrow> Inl NilDereference | Some s' \<Rightarrow>
      (case sug_Range s' of None \<Rightarrow> Inl NilDereference | Some r \<Rightarrow>
       (case rng_Start r of None \<Rightarrow> Inl NilDereference | Some st \<Rightarrow>
        (case rng_End r of None \<Rightarrow> Inl NilDereference | Some en \<Rightarrow>
           Inr \<lparr> cr_StartLine = scast (pos_Line st),
                 cr_StartCharacter = scast (pos_Column st) - 1,
                 cr_EndLine = scast (pos_Line en),
                 cr_EndCharacter = scast (pos_Column en) - 1 \<rparr>))))"

definition buildFixSuggestion :: "Comment \<Rightarrow> Suggestion option \<Rightarrow> panic + FixSuggestionInfo" where
  "buildFixSuggestion c s =
     (case cm_Result c of None \<Rightarrow> Inl NilDereference | Some res \<Rightarrow>
      (let path = Location_GetPath (Diagnostic_GetLocation (fd_Diagnostic res)) in
       (case s of None \<Rightarrow> Inl NilDereference | Some s' \<Rightarrow>
        (case buildCommentRange s of Inl e \<Rightarrow> Inl e | Inr rng \<Rightarrow>
           Inr \<lparr> fs_Description = ''suggestion'',
                 fs_Replacements =
                   [\<lparr> fr_Path = path, fr_Replacement = sug_Text s', fr_Range = rng \<rparr>] \<rparr>))))"

definition gerritCommentLine :: "Comment \<Rightarrow> panic + go_int" where
  "gerritCommentLine c =
     (case cm_Result c of None \<Rightarrow> Inl NilDereference | Some res \<Rightarrow>
      (if fd_FirstSuggestionInDiffContext res then
         (case fd_Diagnostic res of None \<Rightarrow> Inl NilDereference | Some d \<Rightarrow>
          (case diag_Suggestions d of
             s # _ \<Rightarrow> Inr (scast (Position_GetLine (Range_GetStart (Suggestion_GetRange s))))
           | [] \<Rightarrow>
               Inr (scast (Position_GetLine (Range_GetStart (Location_GetRange
                      (Diagnostic_GetLocation (fd_Diagnostic res))))))))
       else
         Inr (scast (Position_GetLine (Range_GetStart (Location_GetRange
                (Diagnostic_GetLocation (fd_Diagnostic res))))))))"

text \<open>The loop of \<^verbatim>\<open>buildRobotComment\<close> over the suggestions, appending to \<open>acc\<close>.\<close>

fun appendFixSuggestions ::
  "Comment \<Rightarrow> Suggestion option list \<Rightarrow> FixSuggestionInfo list \<Rightarrow> panic + FixSuggestionInfo list"
where
  "appendFixSuggestions c [] acc = Inr acc"
| "appendFixSuggestions c (s # ss) acc =
     (case buildFixSuggestion c s of
        Inl e \<Rightarrow> Inl e
      | Inr fixSuggestion \<Rightarrow> appendFixSuggestions c ss (acc @ [fixSuggestion]))"

definition RobotID :: string where
  "RobotID = ''reviewdog '' @ [CHR 0xF0, CHR 0x9F, CHR 0x90, CHR 0xB6]"

definition buildRobotComment :: "Externals \<Rightarrow> Comment \<Rightarrow> panic + RobotCommentInput" where
  "buildRobotComment ext c =
     (let msg = ext_GerritComment ext c in
      (case gerritCommentLine c of Inl e \<Rightarrow> Inl e | Inr line \<Rightarrow>
       (case cm_Result c of None \<Rightarrow> Inl NilDereference | Some res \<Rightarrow>
        (case fd_Diagnostic res of None \<Rightarrow> Inl NilDereference | Some d \<Rightarrow>
         (case appendFixSuggestions c (diag_Suggestions d) [] of
            Inl e \<Rightarrow> Inl e
          | Inr fixes \<Rightarrow>
              Inr \<lparr> rc_CommentInput = \<lparr> ci_Line = line, ci_Range = None, ci_Message = msg \<rparr>,
                    rc_RobotID = RobotID,
                    rc_RobotRunID = Getenv (ext_environ ext) ''GERRIT_REVIEWDOG_RUN_ID'',
                    rc_URL = Getenv (ext_environ ext) ''GERRIT_REVIEWDOG_RUN_URL'',
                    rc_FixSuggestions = fixes \<rparr>)))))"

text \<open>
  The loop of \<^verbatim>\<open>postAllComments\<close> over the buffer. \<open>m\<close> is \<^verbatim>\<open>review.RobotComments\<close>;
  reading a missing key of a Go map gives the nil slice, so \<^verbatim>\<open>append\<close> starts a new list.
  The line printed for a comment that should not be reported goes to standard output,
  which is not part of the model.
\<close>

definition appendRobotComment ::
  "(string \<rightharpoonup> RobotCommentInput list) \<Rightarrow> string \<Rightarrow> RobotCommentInput \<Rightarrow>
   (string \<rightharpoonup> RobotCommentInput list)"
where
  "appendRobotComment m path robotComment =
     m(path \<mapsto> (case m path of None \<Rightarrow> [] | Some l \<Rightarrow> l) @ [robotComment])"

fun collectRobotComments ::
  "Externals \<Rightarrow> Comment list \<Rightarrow> (string \<rightharpoonup> RobotCommentInput list) \<Rightarrow>
   panic + (string \<rightharpoonup> RobotCommentInput list)"
where
  "collectRobotComments ext [] m = Inr m"
| "collectRobotComments ext (c # cs) m =
     (case cm_Result c of None \<Rightarrow> Inl NilDereference | Some res \<Rightarrow>
      (if \<not> fd_InDiffFile res then collectRobotComments ext cs m
       else if \<not> fd_ShouldReport res then collectRobotComments ext cs m
       else
         (let path = Location_GetPath (Diagnostic_GetLocation (fd_Diagnostic res)) in
          (case buildRobotComment ext c of
             Inl e \<Rightarrow> Inl e
           | Inr robotComment \<Rightarrow>
               collectRobotComments ext cs (appendRobotComment m path robotComment)))))"

text \<open>
  \<^verbatim>\<open>postAllComments\<close>: build the review, then one call of \<^verbatim>\<open>SetReview\<close>, whose error
  is returned as it is. The result is the returned error, the aggregator (which the
  function does not change) and the log of calls the client has received.
\<close>

definition postAllComments ::
  "Externals \<Rightarrow> ChangeReviewCommenter \<Rightarrow> SetReviewCall list \<Rightarrow>
   panic + (error option \<times> ChangeReviewCommenter \<times> SetReviewCall list)"
where
  "postAllComments ext g calls =
     (case collectRobotComments ext (postComments g) Map.empty of
        Inl e \<Rightarrow> Inl e
      | Inr m \<Rightarrow>
          (let review = \<lparr> ri_RobotComments = m \<rparr> in
           Inr (ext_SetReview ext (changeID g) (revisionID g) review, g,
                calls @ [\<lparr> call_changeID = changeID g, call_revisionID = revisionID g,
                           call_review = review \<rparr>])))"

definition Flush ::
  "Externals \<Rightarrow> ChangeReviewCommenter \<Rightarrow> SetReviewCall list \<Rightarrow>
   panic + (error option \<times> ChangeReviewCommenter \<times> SetReviewCall list)"
where
  "Flush ext g calls = postAllComments ext g calls"

subsection \<open>Path joining (\<^verbatim>\<open>path/filepath\<close> of the Go library, Unix)\<close>

text \<open>
  \<^verbatim>\<open>Post\<close> rewrites the path with \<^verbatim>\<open>filepath.Join\<close>, which cleans its result, so
  the library's \<^verbatim>\<open>Clean\<close> is part of what \<^verbatim>\<open>Post\<close> computes. On Unix the separator
  is the slash and there is no volume name. The output buffer (\<^verbatim>\<open>lazybuf\<close>) is the
  list of the \<^verbatim>\<open>w\<close> bytes written so far: \<^verbatim>\<open>out.w\<close> is its length,
  \<^verbatim>\<open>out.append\<close> adds at the end and \<^verbatim>\<open>out.w--\<close> drops the last byte.
\<close>

definition Separator :: char where
  "Separator = CHR ''/''"

definition IsPathSeparator :: "char \<Rightarrow> bool" where
  "IsPathSeparator c = (c = Separator)"

text \<open>
  The \<^verbatim>\<open>..\<close> case of \<^verbatim>\<open>Clean\<close> when it can backtrack:
  \<^verbatim>\<open>out.w--; for out.w > dotdot && !IsPathSeparator(out.index(out.w)) { out.w-- }\<close>.
  After a decrement, \<^verbatim>\<open>out.index(out.w)\<close> is the byte just dropped.
\<close>

function lazybuf_backtrack :: "nat \<Rightarrow> string \<Rightarrow> string" where
  "lazybuf_backtrack dotdot out =
     (let dropped = last out; out' = butlast out in
      if length out' > dotdot \<and> \<not> IsPathSeparator dropped
      then lazybuf_backtrack dotdot out' else out')"
  by pat_completeness auto
termination
  by (relation "measure (\<lambda>(dotdot, out). length out)") auto

declare lazybuf_backtrack.simps [simp del]

text \<open>
  Copying a path element:
  \<^verbatim>\<open>for ; r < n && !IsPathSeparator(path[r]); r++ { out.append(path[r]) }\<close>.
\<close>

function copyElement :: "string \<Rightarrow> nat \<Rightarrow> string \<Rightarrow> nat \<times> string" where
  "copyElement path r out =
     (if r < length path \<and> \<not> IsPathSeparator (path ! r)
      then copyElement path (r + 1) (out @ [path ! r]) else (r, out))"
  by pat_completeness auto
termination
  by (relation "measure (\<lambda>(path, r, out). length path - r)") auto

declare copyElement.simps [simp del]

lemma copyElement_advances:
  "r < length path \<Longrightarrow> \<not> IsPathSeparator (path ! r) \<Longrightarrow> r < fst (copyElement path r out)"
  "r \<le> fst (copyElement path r out)"
  "fst (copyElement path r out) \<le> max r (length path)"
proof -
  have le: "r \<le> fst (copyElement path r out) \<and> fst (copyElement path r out) \<le> max r (length path)"
    for r out
  proof (induction path r out rule: copyElement.induct)
    case (1 path r out)
    show ?case
    proof (cases "r < length path \<and> \<not> IsPathSeparator (path ! r)")
      case True
      with 1 show ?thesis by (subst (1 2) copyElement.simps) auto
    next
      case False
      then show ?thesis by (subst (1 2) copyElement.simps) auto
    qed
  qed
  show "r \<le> fst (copyElement path r out)" using le by blast
  show "fst (copyElement path r out) \<le> max r (length path)" using le by blast
  assume a: "r < length path" "\<not> IsPathSeparator (path ! r)"
  have "Suc r \<le> fst (copyElement path (r + 1) (out @ [path ! r]))" using le [of "r + 1"] by simp
  with a show "r < fst (copyElement path r out)" by (subst copyElement.simps) simp
qed

text \<open>
  The main loop of \<^verbatim>\<open>Clean\<close>: \<open>r\<close> is the index of the next byte of \<open>path\<close> to
  read, \<open>dotdot\<close> the length of the output that a \<^verbatim>\<open>..\<close> must not remove. The cases
  are the cases of the library's \<^verbatim>\<open>switch\<close>, in its order.
\<close>

function cleanLoop :: "string \<Rightarrow> bool \<Rightarrow> nat \<Rightarrow> string \<Rightarrow> nat \<Rightarrow> string" where
  "cleanLoop path rooted r out dotdot =
     (let n = length path in
      if \<not> r < n then out
      else if IsPathSeparator (path ! r) then
        cleanLoop path rooted (r + 1) out dotdot
      else if path ! r = CHR ''.'' \<and> (r + 1 = n \<or> IsPathSeparator (path ! (r + 1))) then
        cleanLoop path rooted (r + 1) out dotdot
      else if path ! r = CHR ''.'' \<and> path ! (r + 1) = CHR ''.'' \<and>
              (r + 2 = n \<or> IsPathSeparator (path ! (r + 2))) then
        (if length out > dotdot then
           cleanLoop path rooted (r + 2) (lazybuf_backtrack dotdot out) dotdot
         else if \<not> rooted then
           (let out1 = (if length out > 0 then out @ [Separator] else out);
                out2 = out1 @ ''..''
            in cleanLoop path rooted (r + 2) out2 (length out2))
         else cleanLoop path rooted (r + 2) out dotdot)
      else
        (let out1 = (if rooted \<and> length out \<noteq> 1 \<or> \<not> rooted \<and> length out \<noteq> 0
                     then out @ [Separator] else out);
             copied = copyElement path r out1
         in cleanLoop path rooted (fst copied) (snd copied) dotdot))"
  by pat_completeness auto
termination
proof (relation "measure (\<lambda>(path, rooted, r, out, dotdot). Suc (length path) - r)", goal_cases)
  case 1
  show ?case by simp
next
  case (7 path rooted r out dotdot n out1 copied)
  then have "r < fst copied" by (simp add: copyElement_advances(1))
  moreover have "fst copied \<le> length path"
    using 7 copyElement_advances(3) [of path r out1] by simp
  ultimately show ?case using 7 by simp
qed auto

declare cleanLoop.simps [simp del]

definition Clean :: "string \<Rightarrow> string" where
  "Clean path =
     (if path = [] then ''.''
      else
        (let rooted = IsPathSeparator (path ! 0);
             out = (if rooted then cleanLoop path rooted 1 [Separator] 1
                    else cleanLoop path rooted 0 [] 0)
         in if length out = 0 then ''.'' else out))"

text \<open>\<^verbatim>\<open>strings.Join(elems, sep)\<close>.\<close>

fun strings_Join :: "string list \<Rightarrow> string \<Rightarrow> string" where
  "strings_Join [] sep = []"
| "strings_Join [e] sep = e"
| "strings_Join (e # es) sep = e @ sep @ strings_Join es sep"

text \<open>
  \<^verbatim>\<open>filepath.Join\<close>: from the first non-empty element on, the elements joined by the
  separator and cleaned; the empty string when every element is empty.
\<close>

fun filepath_Join :: "string list \<Rightarrow> string" where
  "filepath_Join [] = []"
| "filepath_Join (e # es) =
     (if e \<noteq> [] then Clean (strings_Join (e # es) [Separator]) else filepath_Join es)"

subsection \<open>\<^verbatim>\<open>Post\<close>\<close>

text \<open>
  \<^verbatim>\<open>Post\<close> assigns the joined path to \<^verbatim>\<open>c.Result.Diagnostic.GetLocation().Path\<close>: a nil
  \<^verbatim>\<open>Result\<close> panics, and so does the assignment through the nil location that the
  getter returns for a missing diagnostic or location. Otherwise the comment, with
  its path rewritten, is appended to the buffer and the returned error is nil.
\<close>

definition setLocationPath :: "FilteredDiagnostic \<Rightarrow> Diagnostic \<Rightarrow> Location \<Rightarrow> string \<Rightarrow> Comment \<Rightarrow> Comment" where
  "setLocationPath res d l p c =
     c\<lparr> cm_Result := Some (res\<lparr> fd_Diagnostic := Some (d\<lparr> diag_Location := Some (l\<lparr> loc_Path := p \<rparr>) \<rparr>) \<rparr>) \<rparr>"

definition Post ::
  "ChangeReviewCommenter \<Rightarrow> Comment \<Rightarrow> panic + (error option \<times> ChangeReviewCommenter)"
where
  "Post g c =
     (case cm_Result c of None \<Rightarrow> Inl NilDereference | Some res \<Rightarrow>
      (case fd_Diagnostic res of None \<Rightarrow> Inl NilDereference | Some d \<Rightarrow>
       (case diag_Location d of None \<Rightarrow> Inl NilDereference | Some l \<Rightarrow>
          (let c' = setLocationPath res d l (filepath_Join [wd g, loc_Path l]) c in
           Inr (None, g\<lparr> postComments := postComments g @ [c'] \<rparr>)))))"

text \<open>\<^verbatim>\<open>NewChangeReviewCommenter\<close>, given the result of \<^verbatim>\<open>serviceutil.GitRelWorkdir\<close>.\<close>

definition NewChangeReviewCommenter ::
  "error + string \<Rightarrow> string \<Rightarrow> string \<Rightarrow> error + ChangeReviewCommenter"
where
  "NewChangeReviewCommenter gitRelWorkdir cid rid =
     (case gitRelWorkdir of
        Inl err \<Rightarrow> Inl (Errorf ''ChangeReviewCommenter needs 'git' command: '' err)
      | Inr workDir \<Rightarrow>
          Inr \<lparr> changeID = cid, revisionID = rid, postComments = [], wd = workDir \<rparr>)"

subsection \<open>Diff retrieval (\<^verbatim>\<open>change_diff.go\<close>)\<close>

record ChangeDiff =
  cd_changeID :: string
  cd_revisionID :: string
  cd_wd :: string

text \<open>
  \<^verbatim>\<open>exec.Command(name, args...).Output()\<close> is a parameter: from the command line to
  the bytes of standard output, or to the error of a process that could not be
  started or exited non-zero. Each run is recorded in the log of started commands.
\<close>

definition gitDiff ::
  "(string list \<Rightarrow> error + string) \<Rightarrow> ChangeDiff \<Rightarrow> string list list \<Rightarrow>
   (error + string) \<times> string list list"
where
  "gitDiff run g started =
     (let argv = [''git'', ''diff'', ''--find-renames'', cd_revisionID g @ ''~'', cd_revisionID g] in
      (case run argv of
         Inl err \<Rightarrow> (Inl (Errorf ''failed to run git diff: '' err), started @ [argv])
       | Inr bytes \<Rightarrow> (Inr bytes, started @ [argv])))"

definition Diff ::
  "(string list \<Rightarrow> error + string) \<Rightarrow> ChangeDiff \<Rightarrow> string list list \<Rightarrow>
   (error + string) \<times> string list list"
where
  "Diff run g started = gitDiff run g started"

definition stripDiffResult :: int where
  "stripDiffResult = 1"

definition Strip :: "ChangeDiff \<Rightarrow> int" where
  "Strip g = stripDiffResult"

section \<open>Vocabulary of the properties\<close>

text \<open>
  Readers of a buffered comment, through the same nil-safe getters as the code. The
  flags of a comment without a \<^verbatim>\<open>Result\<close> read as false; \<^verbatim>\<open>Post\<close> admits no such
  comment to the buffer.
\<close>

definition comment_Diagnostic :: "Comment \<Rightarrow> Diagnostic option" where
  "comment_Diagnostic c = (case cm_Result c of None \<Rightarrow> None | Some res \<Rightarrow> fd_Diagnostic res)"

definition comment_Path :: "Comment \<Rightarrow> string" where
  "comment_Path c = Location_GetPath (Diagnostic_GetLocation (comment_Diagnostic c))"

definition comment_StartLine :: "Comment \<Rightarrow> int32" where
  "comment_StartLine c =
     Position_GetLine (Range_GetStart (Location_GetRange (Diagnostic_GetLocation (comment_Diagnostic c))))"

definition comment_Suggestions :: "Comment \<Rightarrow> Suggestion option list" where
  "comment_Suggestions c = (case comment_Diagnostic c of None \<Rightarrow> [] | Some d \<Rightarrow> diag_Suggestions d)"

definition comment_InDiffFile :: "Comment \<Rightarrow> bool" where
  "comment_InDiffFile c = (case cm_Result c of None \<Rightarrow> False | Some res \<Rightarrow> fd_InDiffFile res)"

definition comment_ShouldReport :: "Comment \<Rightarrow> bool" where
  "comment_ShouldReport c = (case cm_Result c of None \<Rightarrow> False | Some res \<Rightarrow> fd_ShouldReport res)"

definition comment_FirstSuggestionInDiffContext :: "Comment \<Rightarrow> bool" where
  "comment_FirstSuggestionInDiffContext c =
     (case cm_Result c of None \<Rightarrow> False | Some res \<Rightarrow> fd_FirstSuggestionInDiffContext res)"

definition reportedAt :: "string \<Rightarrow> Comment list \<Rightarrow> Comment list" where
  "reportedAt p cs = filter (\<lambda>c. comment_InDiffFile c \<and> comment_ShouldReport c \<and> comment_Path c = p) cs"

definition listAt :: "('k \<rightharpoonup> 'v list) \<Rightarrow> 'k \<Rightarrow> 'v list" where
  "listAt m k = (case m k of None \<Rightarrow> [] | Some l \<Rightarrow> l)"

definition entriesAt :: "ReviewInput \<Rightarrow> string \<Rightarrow> RobotCommentInput list" where
  "entriesAt review p = listAt (ri_RobotComments review) p"

definition isReportedAt :: "string \<Rightarrow> Comment \<Rightarrow> bool" where
  "isReportedAt p c = (comment_InDiffFile c \<and> comment_ShouldReport c \<and> comment_Path c = p)"

text \<open>
  The position, in the list of a path, of the entry of the buffered comment \<open>buf ! i\<close>:
  the number of comments before it that are reported under the same path.
\<close>

definition entryIndex :: "string \<Rightarrow> Comment list \<Rightarrow> nat \<Rightarrow> nat" where
  "entryIndex p buf i = length (reportedAt p (take i buf))"

text \<open>
  What a call of \<^verbatim>\<open>Flush\<close> shows to the outside: the panic, or the returned error and
  the calls the client has received.
\<close>

definition submission ::
  "panic + (error option \<times> ChangeReviewCommenter \<times> SetReviewCall list) \<Rightarrow>
   panic + (error option \<times> SetReviewCall list)"
where
  "submission r = map_sum id (\<lambda>(err, g', calls'). (err, calls')) r"

text \<open>
  The comments on which building the payload does not panic: the comment has a
  \<^verbatim>\<open>Result\<close>, and if it passes both filters it has a diagnostic, each of whose
  suggestions is present and has a range with a start and an end.
\<close>

definition suggestionComplete :: "Suggestion option \<Rightarrow> bool" where
  "suggestionComplete s =
     (case s of None \<Rightarrow> False | Some s' \<Rightarrow>
      (case sug_Range s' of None \<Rightarrow> False | Some r \<Rightarrow>
         rng_Start r \<noteq> None \<and> rng_End r \<noteq> None))"

definition flushable :: "Comment \<Rightarrow> bool" where
  "flushable c =
     (case cm_Result c of None \<Rightarrow> False | Some res \<Rightarrow>
      (if fd_InDiffFile res \<and> fd_ShouldReport res then
         (case fd_Diagnostic res of None \<Rightarrow> False
          | Some d \<Rightarrow> list_all suggestionComplete (diag_Suggestions d))
       else True))"

text \<open>
  A plain path element: not empty, not \<^verbatim>\<open>.\<close> or \<^verbatim>\<open>..\<close>, and without a separator. A
  relative path made of plain elements joined by single separators is in the form
  that \<^verbatim>\<open>filepath.Clean\<close> produces.
\<close>

definition plainElement :: "string \<Rightarrow> bool" where
  "plainElement e = (e \<noteq> [] \<and> e \<noteq> ''.'' \<and> e \<noteq> ''..'' \<and> Separator \<notin> set e)"

text \<open>
  The fix entry of a suggestion in the words of the specification: the comment's path,
  the suggestion's replacement text, and the suggestion's range with the lines as they
  are and the columns one less, all read as integers.
\<close>

definition spec_zeroBasedRange :: "Range \<Rightarrow> CommentRange \<Rightarrow> bool" where
  "spec_zeroBasedRange r rng =
     (case rng_Start r of None \<Rightarrow> False | Some st \<Rightarrow>
      (case rng_End r of None \<Rightarrow> False | Some en \<Rightarrow>
         sint (cr_StartLine rng) = sint (pos_Line st) \<and>
         sint (cr_StartCharacter rng) = sint (pos_Column st) - 1 \<and>
         sint (cr_EndLine rng) = sint (pos_Line en) \<and>
         sint (cr_EndCharacter rng) = sint (pos_Column en) - 1))"

definition spec_fixEntry :: "string \<Rightarrow> Suggestion option \<Rightarrow> FixSuggestionInfo \<Rightarrow> bool" where
  "spec_fixEntry path s f =
     (case s of None \<Rightarrow> False | Some s' \<Rightarrow>
      (case sug_Range s' of None \<Rightarrow> False | Some r \<Rightarrow>
       (case fs_Replacements f of
          [rep] \<Rightarrow> fr_Path rep = path \<and> fr_Replacement rep = sug_Text s' \<and>
                   spec_zeroBasedRange r (fr_Range rep)
        | _ \<Rightarrow> False)))"

section \<open>Example inputs\<close>

text \<open>
  Concrete comments, collaborators and payloads, on which the theorems below are
  instantiated. The example message formatter returns a fixed text, the environment
  is empty and \<^verbatim>\<open>SetReview\<close> succeeds.
\<close>

definition exampleSuggestion :: "int32 \<Rightarrow> int32 \<Rightarrow> int32 \<Rightarrow> string \<Rightarrow> Suggestion option" where
  "exampleSuggestion line startCol endCol txt =
     Some \<lparr> sug_Range = Some \<lparr> rng_Start = Some \<lparr> pos_Line = line, pos_Column = startCol \<rparr>,
                                rng_End = Some \<lparr> pos_Line = line, pos_Column = endCol \<rparr> \<rparr>,
            sug_Text = txt \<rparr>"

definition exampleComment ::
  "string \<Rightarrow> int32 \<Rightarrow> bool \<Rightarrow> bool \<Rightarrow> bool \<Rightarrow> Suggestion option list \<Rightarrow> Comment" where
  "exampleComment path line inDiffFile shouldReport firstInContext suggestions =
     \<lparr> cm_Result = Some
         \<lparr> fd_Diagnostic = Some
             \<lparr> diag_Message = ''finding'',
               diag_Location = Some
                 \<lparr> loc_Path = path,
                   loc_Range = Some \<lparr> rng_Start = Some \<lparr> pos_Line = line, pos_Column = 1 \<rparr>,
                                      rng_End = None \<rparr> \<rparr>,
               diag_Suggestions = suggestions \<rparr>,
           fd_ShouldReport = shouldReport,
           fd_InDiffFile = inDiffFile,
           fd_FirstSuggestionInDiffContext = firstInContext \<rparr>,
       cm_ToolName = ''linter'' \<rparr>"

definition exampleExternals :: Externals where
  "exampleExternals =
     \<lparr> ext_GerritComment = (\<lambda>c. ''finding''),
       ext_environ = Map.empty,
       ext_SetReview = (\<lambda>cid rid review. None) \<rparr>"

definition exampleCommenter :: "Comment list \<Rightarrow> ChangeReviewCommenter" where
  "exampleCommenter cs = \<lparr> changeID = ''change'', revisionID = ''rev'', postComments = cs, wd = [] \<rparr>"

definition exampleEntry :: "go_int \<Rightarrow> FixSuggestionInfo list \<Rightarrow> RobotCommentInput" where
  "exampleEntry line fixes =
     \<lparr> rc_CommentInput = \<lparr> ci_Line = line, ci_Range = None, ci_Message = ''finding'' \<rparr>,
       rc_RobotID = RobotID, rc_RobotRunID = [], rc_URL = [], rc_FixSuggestions = fixes \<rparr>"

definition exampleFix :: "string \<Rightarrow> go_int \<Rightarrow> go_int \<Rightarrow> go_int \<Rightarrow> string \<Rightarrow> FixSuggestionInfo" where
  "exampleFix path line startChar endChar txt =
     \<lparr> fs_Description = ''suggestion'',
       fs_Replacements =
         [\<lparr> fr_Path = path, fr_Replacement = txt,
            fr_Range = \<lparr> cr_StartLine = line, cr_StartCharacter = startChar,
                         cr_EndLine = line, cr_EndCharacter = endChar \<rparr> \<rparr>] \<rparr>"

definition exampleCall :: "(string \<rightharpoonup> RobotCommentInput list) \<Rightarrow> SetReviewCall" where
  "exampleCall m = \<lparr> call_changeID = ''change'', call_revisionID = ''rev'',
                     call_review = \<lparr> ri_RobotComments = m \<rparr> \<rparr>"

section \<open>The payload as a function of the buffer\<close>

lemma listAt_appendRobotComment:
  "listAt (appendRobotComment m path rc) p = (if p = path then listAt m p @ [rc] else listAt m p)"
  by (simp add: listAt_def appendRobotComment_def)

lemma dom_appendRobotComment: "dom (appendRobotComment m path rc) = insert path (dom m)"
  by (simp add: appendRobotComment_def)

lemma collect_entries:
  "collectRobotComments ext cs m = Inr m' \<Longrightarrow>
   \<exists>new. listAt m' p = listAt m p @ new \<and>
         list_all2 (\<lambda>c rc. buildRobotComment ext c = Inr rc) (reportedAt p cs) new"
proof (induction cs arbitrary: m)
  case Nil
  then show ?case by (simp add: reportedAt_def)
next
  case (Cons c cs)
  from Cons.prems obtain res where res: "cm_Result c = Some res"
    by (auto split: option.splits)
  show ?case
  proof (cases "fd_InDiffFile res \<and> fd_ShouldReport res")
    case False
    with Cons.prems res have "collectRobotComments ext cs m = Inr m'"
      by (auto split: if_splits)
    from Cons.IH [OF this] False res show ?thesis
      by (auto simp: reportedAt_def comment_InDiffFile_def comment_ShouldReport_def)
  next
    case True
    with Cons.prems res obtain rc where rc: "buildRobotComment ext c = Inr rc"
      and rest: "collectRobotComments ext cs (appendRobotComment m (comment_Path c) rc) = Inr m'"
      by (auto simp: comment_Path_def comment_Diagnostic_def Let_def split: sum.splits)
    from Cons.IH [OF rest] obtain new where new:
      "listAt m' p = listAt (appendRobotComment m (comment_Path c) rc) p @ new"
      "list_all2 (\<lambda>c rc. buildRobotComment ext c = Inr rc) (reportedAt p cs) new"
      by blast
    show ?thesis
    proof (cases "comment_Path c = p")
      case same: True
      have "reportedAt p (c # cs) = c # reportedAt p cs"
        using True res same by (simp add: reportedAt_def comment_InDiffFile_def comment_ShouldReport_def)
      moreover have "listAt m' p = listAt m p @ (rc # new)"
        using new(1) same by (simp add: listAt_appendRobotComment)
      ultimately show ?thesis using new(2) rc by auto
    next
      case other: False
      have "reportedAt p (c # cs) = reportedAt p cs"
        using other by (simp add: reportedAt_def)
      moreover have "listAt m' p = listAt m p @ new"
        using new(1) other by (auto simp add: listAt_appendRobotComment)
      ultimately show ?thesis using new(2) by auto
    qed
  qed
qed

lemma collect_dom:
  "collectRobotComments ext cs m = Inr m' \<Longrightarrow>
   dom m' = dom m \<union> comment_Path ` {c \<in> set cs. comment_InDiffFile c \<and> comment_ShouldReport c}"
proof (induction cs arbitrary: m)
  case Nil
  then show ?case by simp
next
  case (Cons c cs)
  from Cons.prems obtain res where res: "cm_Result c = Some res"
    by (auto split: option.splits)
  show ?case
  proof (cases "fd_InDiffFile res \<and> fd_ShouldReport res")
    case False
    with Cons.prems res have "collectRobotComments ext cs m = Inr m'"
      by (auto split: if_splits)
    from Cons.IH [OF this] False res show ?thesis
      by (auto simp: comment_InDiffFile_def comment_ShouldReport_def)
  next
    case True
    with Cons.prems res obtain rc where
      rest: "collectRobotComments ext cs (appendRobotComment m (comment_Path c) rc) = Inr m'"
      by (auto simp: comment_Path_def comment_Diagnostic_def Let_def split: sum.splits)
    from Cons.IH [OF rest] True res show ?thesis
      by (auto simp: dom_appendRobotComment comment_InDiffFile_def comment_ShouldReport_def)
  qed
qed

lemma Flush_Inr:
  "Flush ext g calls = Inr (err, g', calls') \<Longrightarrow>
   \<exists>m. collectRobotComments ext (postComments g) Map.empty = Inr m \<and>
       err = ext_SetReview ext (changeID g) (revisionID g) \<lparr> ri_RobotComments = m \<rparr> \<and>
       g' = g \<and>
       calls' = calls @ [\<lparr> call_changeID = changeID g, call_revisionID = revisionID g,
                           call_review = \<lparr> ri_RobotComments = m \<rparr> \<rparr>]"
  by (auto simp: Flush_def postAllComments_def Let_def split: sum.splits)

lemma Flush_keeps_buffer:
  "Flush ext g calls = Inr (err, g', calls') \<Longrightarrow> postComments g' = postComments g"
  by (auto dest: Flush_Inr)

lemma Flush_entries:
  assumes "Flush ext g calls = Inr (err, g', calls')"
  shows "list_all2 (\<lambda>c rc. buildRobotComment ext c = Inr rc)
           (reportedAt p (postComments g)) (entriesAt (call_review (last calls')) p)"
proof -
  from Flush_Inr [OF assms] obtain m where
    m: "collectRobotComments ext (postComments g) Map.empty = Inr m"
    and c: "call_review (last calls') = \<lparr> ri_RobotComments = m \<rparr>"
    by auto
  from collect_entries [OF m, of p] c show ?thesis
    by (simp add: entriesAt_def listAt_def)
qed

section \<open>The entry of one comment\<close>

lemma sint_scast_up: "sint (scast (c::32 word) :: 64 word) = sint c"
  by (simp add: sint_up_scast is_up)

lemma sint_to_zero_based: "sint ((scast (c::32 word) :: 64 word) - 1) = sint c - 1"
proof -
  have b: "- (2 ^ 31) \<le> sint c" "sint c < 2 ^ 31"
    using sint_ge [of c] sint_lt [of c] by simp_all
  have "sint ((scast c :: 64 word) - 1) = signed_take_bit 63 (sint c - 1)"
    by (simp add: sint_word_ariths sint_scast_up)
  also have "\<dots> = sint c - 1"
    using b by (simp add: signed_take_bit_int_eq_self_iff)
  finally show ?thesis .
qed

lemma buildCommentRange_spec:
  "buildCommentRange (Some s) = Inr rng \<Longrightarrow>
   \<exists>r. sug_Range s = Some r \<and> spec_zeroBasedRange r rng"
  by (auto simp: buildCommentRange_def spec_zeroBasedRange_def sint_scast_up sint_to_zero_based
      split: option.splits)

lemma buildFixSuggestion_spec:
  "buildFixSuggestion c s = Inr f \<Longrightarrow> spec_fixEntry (comment_Path c) s f"
proof -
  assume a: "buildFixSuggestion c s = Inr f"
  then obtain res s' rng where res: "cm_Result c = Some res" and s: "s = Some s'"
    and rng: "buildCommentRange (Some s') = Inr rng"
    and f: "f = \<lparr> fs_Description = ''suggestion'',
                  fs_Replacements = [\<lparr> fr_Path = comment_Path c, fr_Replacement = sug_Text s',
                                      fr_Range = rng \<rparr>] \<rparr>"
    by (auto simp: buildFixSuggestion_def comment_Path_def comment_Diagnostic_def Let_def
        split: option.splits sum.splits)
  from buildCommentRange_spec [OF rng] obtain r where "sug_Range s' = Some r" "spec_zeroBasedRange r rng"
    by blast
  with s f show ?thesis by (simp add: spec_fixEntry_def)
qed

lemma appendFixSuggestions_all2:
  "appendFixSuggestions c ss acc = Inr fixes \<Longrightarrow>
   \<exists>new. fixes = acc @ new \<and> list_all2 (\<lambda>s f. buildFixSuggestion c s = Inr f) ss new"
proof (induction ss arbitrary: acc)
  case Nil
  then show ?case by simp
next
  case (Cons s ss)
  from Cons.prems obtain f where f: "buildFixSuggestion c s = Inr f"
    and rest: "appendFixSuggestions c ss (acc @ [f]) = Inr fixes"
    by (auto split: sum.splits)
  from Cons.IH [OF rest] obtain new where "fixes = (acc @ [f]) @ new"
    "list_all2 (\<lambda>s f. buildFixSuggestion c s = Inr f) ss new" by blast
  with f have "fixes = acc @ (f # new) \<and> list_all2 (\<lambda>s f. buildFixSuggestion c s = Inr f) (s # ss) (f # new)"
    by simp
  then show ?case by blast
qed

lemma buildRobotComment_Inr:
  assumes "buildRobotComment ext c = Inr rc"
  shows "ci_Range (rc_CommentInput rc) = None"
    and "gerritCommentLine c = Inr (ci_Line (rc_CommentInput rc))"
    and "appendFixSuggestions c (comment_Suggestions c) [] = Inr (rc_FixSuggestions rc)"
  using assms
  by (auto simp: buildRobotComment_def comment_Suggestions_def comment_Diagnostic_def Let_def
      split: option.splits sum.splits)

lemma gerritCommentLine_location:
  assumes "gerritCommentLine c = Inr line"
    and "\<not> comment_FirstSuggestionInDiffContext c \<or> comment_Suggestions c = []"
  shows "line = scast (comment_StartLine c)"
  using assms
  by (auto simp: gerritCommentLine_def comment_FirstSuggestionInDiffContext_def
      comment_Suggestions_def comment_StartLine_def comment_Diagnostic_def
      split: option.splits if_splits list.splits)

lemma gerritCommentLine_suggestion:
  assumes "gerritCommentLine c = Inr line"
    and "comment_FirstSuggestionInDiffContext c" and "comment_Suggestions c = s # ss"
  shows "line = scast (Position_GetLine (Range_GetStart (Suggestion_GetRange s)))"
  using assms
  by (auto simp: gerritCommentLine_def comment_FirstSuggestionInDiffContext_def
      comment_Suggestions_def comment_Diagnostic_def
      split: option.splits if_splits list.splits)

lemma Flush_entry:
  assumes "Flush ext g calls = Inr (err, g', calls')"
    and "i < length (reportedAt p (postComments g))"
  shows "i < length (entriesAt (call_review (last calls')) p)"
    and "buildRobotComment ext (reportedAt p (postComments g) ! i) =
         Inr (entriesAt (call_review (last calls')) p ! i)"
  using Flush_entries [OF assms(1), of p] assms(2)
  by (auto simp: list_all2_conv_all_nth)

section \<open>Order and filters\<close>

lemma reportedAt_filter: "reportedAt p cs = filter (isReportedAt p) cs"
  unfolding reportedAt_def by (rule filter_cong) (simp_all add: isReportedAt_def)

lemma filter_take_nth:
  assumes "i < length xs" and "P (xs ! i)"
  shows "length (filter P (take i xs)) < length (filter P xs)"
    and "filter P xs ! length (filter P (take i xs)) = xs ! i"
proof -
  have "xs = take i xs @ xs ! i # drop (Suc i) xs"
    using assms(1) by (rule id_take_nth_drop)
  then have "filter P xs = filter P (take i xs) @ filter P (xs ! i # drop (Suc i) xs)"
    by (metis filter_append)
  then have eq: "filter P xs = filter P (take i xs) @ xs ! i # filter P (drop (Suc i) xs)"
    using assms(2) by simp
  have "length (filter P xs) =
        length (filter P (take i xs)) + Suc (length (filter P (drop (Suc i) xs)))"
    using arg_cong [OF eq, of length] by simp
  then show "length (filter P (take i xs)) < length (filter P xs)"
    by simp
  show "filter P xs ! length (filter P (take i xs)) = xs ! i"
    by (subst eq) (simp add: nth_append)
qed

lemma filter_take_mono:
  assumes "i < j" and "j \<le> length xs" and "P (xs ! i)"
  shows "length (filter P (take i xs)) < length (filter P (take j xs))"
proof -
  have "i < length (take j xs)" using assms(1,2) by simp
  moreover have "P (take j xs ! i)" using assms(1,3) by simp
  ultimately have "length (filter P (take i (take j xs))) < length (filter P (take j xs))"
    by (rule filter_take_nth(1))
  moreover have "take i (take j xs) = take i xs" using assms(1) by (simp add: min_def)
  ultimately show ?thesis by simp
qed

lemma collect_skip:
  assumes "cm_Result c = Some res" and "\<not> fd_InDiffFile res \<or> \<not> fd_ShouldReport res"
  shows "collectRobotComments ext (xs @ c # ys) m = collectRobotComments ext (xs @ ys) m"
proof (induction xs arbitrary: m)
  case Nil
  show ?case using assms by auto
next
  case (Cons x xs)
  show ?case
    by (auto simp: Cons.IH Let_def split: option.splits sum.splits)
qed

lemma Flush_skip:
  assumes "cm_Result c = Some res" and "\<not> fd_InDiffFile res \<or> \<not> fd_ShouldReport res"
  shows "submission (Flush ext (g\<lparr>postComments := xs @ c # ys\<rparr>) calls) =
         submission (Flush ext (g\<lparr>postComments := xs @ ys\<rparr>) calls)"
  by (simp add: submission_def Flush_def postAllComments_def collect_skip [OF assms] Let_def
      split: sum.splits)

section \<open>Completion\<close>

lemma appendFixSuggestions_total:
  assumes "cm_Result c = Some res" and "list_all suggestionComplete ss"
  shows "\<exists>fixes. appendFixSuggestions c ss acc = Inr fixes"
  using assms(2)
proof (induction ss arbitrary: acc)
  case Nil
  show ?case by simp
next
  case (Cons s ss)
  from Cons.prems have "suggestionComplete s" by simp
  then obtain f where "buildFixSuggestion c s = Inr f"
    using assms(1)
    by (auto simp: suggestionComplete_def buildFixSuggestion_def buildCommentRange_def Let_def
        split: option.splits)
  moreover from Cons.prems have "list_all suggestionComplete ss" by simp
  ultimately show ?case using Cons.IH by simp
qed

lemma buildRobotComment_total:
  assumes "cm_Result c = Some res" and "fd_Diagnostic res = Some d"
    and "list_all suggestionComplete (diag_Suggestions d)"
  shows "\<exists>rc. buildRobotComment ext c = Inr rc"
proof -
  from appendFixSuggestions_total [OF assms(1,3)] obtain fxs where
    "appendFixSuggestions c (diag_Suggestions d) [] = Inr fxs" by blast
  moreover have "\<exists>line. gerritCommentLine c = Inr line"
    using assms(1,2) by (auto simp: gerritCommentLine_def split: list.splits)
  ultimately show ?thesis using assms(1,2)
    by (auto simp: buildRobotComment_def Let_def)
qed

lemma collect_total:
  "list_all flushable cs \<Longrightarrow> \<exists>m'. collectRobotComments ext cs m = Inr m'"
proof (induction cs arbitrary: m)
  case Nil
  show ?case by simp
next
  case (Cons c cs)
  from Cons.prems have c: "flushable c" and cs: "list_all flushable cs" by simp_all
  from c obtain res where res: "cm_Result c = Some res"
    by (auto simp: flushable_def split: option.splits)
  show ?case
  proof (cases "fd_InDiffFile res \<and> fd_ShouldReport res")
    case False
    then show ?thesis using res Cons.IH [OF cs, of m] by auto
  next
    case True
    with c res obtain d where "fd_Diagnostic res = Some d"
      "list_all suggestionComplete (diag_Suggestions d)"
      by (auto simp: flushable_def split: option.splits)
    from buildRobotComment_total [OF res this] obtain rc where "buildRobotComment ext c = Inr rc"
      by blast
    then show ?thesis using res True Cons.IH [OF cs] by (simp add: Let_def)
  qed
qed

lemma collect_nothing:
  "\<forall>c\<in>set cs. \<not> (comment_InDiffFile c \<and> comment_ShouldReport c) \<Longrightarrow>
   collectRobotComments ext cs m = Inr m' \<Longrightarrow> m' = m"
proof (induction cs arbitrary: m)
  case Nil
  then show ?case by simp
next
  case (Cons c cs)
  from Cons.prems(2) obtain res where res: "cm_Result c = Some res"
    by (auto split: option.splits)
  with Cons.prems(1) have "\<not> fd_InDiffFile res \<or> \<not> fd_ShouldReport res"
    by (simp add: comment_InDiffFile_def comment_ShouldReport_def)
  with Cons.prems(2) res have "collectRobotComments ext cs m = Inr m'"
    by (auto split: if_splits)
  with Cons.IH Cons.prems(1) show ?case by simp
qed

text \<open>
  When every buffered comment is \<open>flushable\<close>, \<^verbatim>\<open>Flush\<close> returns, and it has made
  exactly one call of \<^verbatim>\<open>SetReview\<close>, with the aggregator's change and revision
  identifiers; the returned error is the error of that call. When no buffered comment
  passes both filters, which includes the empty buffer, the map of robot comments
  submitted is empty: \<^verbatim>\<open>Flush\<close> does not return early.
\<close>

lemma Flush_submits_once:
  assumes "list_all flushable (postComments g)"
  shows "\<exists>m. Flush ext g calls =
               Inr (ext_SetReview ext (changeID g) (revisionID g) \<lparr> ri_RobotComments = m \<rparr>, g,
                    calls @ [\<lparr> call_changeID = changeID g, call_revisionID = revisionID g,
                               call_review = \<lparr> ri_RobotComments = m \<rparr> \<rparr>]) \<and>
             ((\<forall>c\<in>set (postComments g). \<not> (comment_InDiffFile c \<and> comment_ShouldReport c)) \<longrightarrow>
                m = Map.empty)"
proof -
  from collect_total [OF assms] obtain m where
    m: "collectRobotComments ext (postComments g) Map.empty = Inr m" by blast
  have "Flush ext g calls =
          Inr (ext_SetReview ext (changeID g) (revisionID g) \<lparr> ri_RobotComments = m \<rparr>, g,
               calls @ [\<lparr> call_changeID = changeID g, call_revisionID = revisionID g,
                          call_review = \<lparr> ri_RobotComments = m \<rparr> \<rparr>])"
    using m by (simp add: Flush_def postAllComments_def Let_def)
  moreover have "m = Map.empty"
    if "\<forall>c\<in>set (postComments g). \<not> (comment_InDiffFile c \<and> comment_ShouldReport c)"
    using collect_nothing [OF that m] .
  ultimately show ?thesis by blast
qed

section \<open>Cleaning a path of plain elements\<close>

lemma copyElement_element:
  assumes "Separator \<notin> set e" and "rest = [] \<or> hd rest = Separator"
  shows "copyElement (pre @ e @ rest) (length pre) out = (length pre + length e, out @ e)"
  using assms(1)
proof (induction e arbitrary: pre out)
  case Nil
  show ?case
  proof (cases rest)
    case Nil
    then show ?thesis by (subst copyElement.simps) simp
  next
    case (Cons x xs)
    with assms(2) have "x = Separator" by simp
    with Cons show ?thesis by (subst copyElement.simps) (simp add: IsPathSeparator_def)
  qed
next
  case (Cons x e)
  from Cons.prems have x: "x \<noteq> Separator" and e: "Separator \<notin> set e" by auto
  have "copyElement (pre @ (x # e) @ rest) (length pre) out =
        copyElement ((pre @ [x]) @ e @ rest) (length (pre @ [x])) (out @ [x])"
    using x by (subst copyElement.simps) (simp add: IsPathSeparator_def)
  also have "\<dots> = (length (pre @ [x]) + length e, (out @ [x]) @ e)"
    using e by (rule Cons.IH)
  finally show ?case by simp
qed

lemma plainElement_head:
  assumes "plainElement e" and "rest = [] \<or> hd rest = Separator" and "t = e @ rest"
  shows "\<not> IsPathSeparator (t ! 0)"
    and "\<not> (t ! 0 = CHR ''.'' \<and> (Suc 0 = length t \<or> IsPathSeparator (t ! Suc 0)))"
    and "\<not> (t ! 0 = CHR ''.'' \<and> t ! Suc 0 = CHR ''.'' \<and>
            (Suc (Suc 0) = length t \<or> IsPathSeparator (t ! Suc (Suc 0))))"
proof -
  from assms(1) obtain a e' where e: "e = a # e'" and a: "a \<noteq> Separator"
    by (cases e) (auto simp: plainElement_def)
  show "\<not> IsPathSeparator (t ! 0)"
    using e a assms(3) by (simp add: IsPathSeparator_def)
  show "\<not> (t ! 0 = CHR ''.'' \<and> (Suc 0 = length t \<or> IsPathSeparator (t ! Suc 0)))"
  proof (cases e')
    case Nil
    with e assms(1) have "a \<noteq> CHR ''.''" by (simp add: plainElement_def)
    with e assms(3) show ?thesis by simp
  next
    case (Cons b e'')
    with e assms(1) have "b \<noteq> Separator" by (auto simp: plainElement_def)
    with Cons e assms(3) show ?thesis by (simp add: IsPathSeparator_def)
  qed
  show "\<not> (t ! 0 = CHR ''.'' \<and> t ! Suc 0 = CHR ''.'' \<and>
            (Suc (Suc 0) = length t \<or> IsPathSeparator (t ! Suc (Suc 0))))"
  proof (cases e')
    case Nil
    with e assms(1) have "a \<noteq> CHR ''.''" by (simp add: plainElement_def)
    with e assms(3) show ?thesis by simp
  next
    case b: (Cons b e'')
    show ?thesis
    proof (cases e'')
      case Nil
      with b e assms(1) have "\<not> (a = CHR ''.'' \<and> b = CHR ''.'')" by (simp add: plainElement_def)
      with Nil b e assms(3) show ?thesis by auto
    next
      case (Cons c e''')
      with b e assms(1) have "c \<noteq> Separator" by (auto simp: plainElement_def)
      with Cons b e assms(3) show ?thesis by (simp add: IsPathSeparator_def)
    qed
  qed
qed

lemma cleanLoop_finished:
  "length path \<le> r \<Longrightarrow> cleanLoop path rooted r out dotdot = out"
  by (subst cleanLoop.simps) simp

lemma cleanLoop_separator:
  "cleanLoop (pre @ Separator # rest) rooted (length pre) out dotdot =
   cleanLoop (pre @ Separator # rest) rooted (Suc (length pre)) out dotdot"
  by (subst cleanLoop.simps) (simp add: IsPathSeparator_def)

lemma cleanLoop_element:
  assumes "plainElement e" and "rest = [] \<or> hd rest = Separator"
  shows "cleanLoop (pre @ e @ rest) False (length pre) out 0 =
         cleanLoop (pre @ e @ rest) False (length pre + length e)
           ((if out \<noteq> [] then out @ [Separator] else out) @ e) 0"
proof -
  let ?t = "e @ rest"
  note h = plainElement_head [OF assms refl]
  have nth: "(pre @ ?t) ! (length pre + k) = ?t ! k" for k
    by (rule nth_append_length_plus)
  have nth0: "(pre @ ?t) ! length pre = ?t ! 0"
    using nth [of 0] by simp
  have nth1: "(pre @ ?t) ! Suc (length pre) = ?t ! Suc 0"
    using nth [of "Suc 0"] by simp
  have nth2: "(pre @ ?t) ! Suc (Suc (length pre)) = ?t ! Suc (Suc 0)"
    using nth [of "Suc (Suc 0)"] by simp
  have ne: "e \<noteq> []" and sep: "Separator \<notin> set e"
    using assms(1) by (simp_all add: plainElement_def)
  have len: "length pre < length (pre @ ?t)" using ne by simp
  have c1: "\<not> IsPathSeparator ((pre @ ?t) ! length pre)"
    using h(1) nth0 by simp
  have c2: "\<not> ((pre @ ?t) ! length pre = CHR ''.'' \<and>
               (length pre + 1 = length (pre @ ?t) \<or> IsPathSeparator ((pre @ ?t) ! (length pre + 1))))"
    using h(2) nth0 nth1 by auto
  have c3: "\<not> ((pre @ ?t) ! length pre = CHR ''.'' \<and> (pre @ ?t) ! (length pre + 1) = CHR ''.'' \<and>
               (length pre + 2 = length (pre @ ?t) \<or> IsPathSeparator ((pre @ ?t) ! (length pre + 2))))"
    using h(3) nth0 nth1 nth2 by auto
  have "cleanLoop (pre @ ?t) False (length pre) out 0 =
        (let out1 = (if length out \<noteq> 0 then out @ [Separator] else out);
             copied = copyElement (pre @ ?t) (length pre) out1
         in cleanLoop (pre @ ?t) False (fst copied) (snd copied) 0)"
    apply (subst cleanLoop.simps)
    using len c1 c2 c3 by (simp only: Let_def if_True if_False not_not simp_thms)
  then show ?thesis
    by (simp add: copyElement_element [OF sep assms(2)] Let_def)
qed

lemma strings_Join_Cons:
  "strings_Join (e # es) sep = e @ (if es = [] then [] else sep @ strings_Join es sep)"
  by (cases es) simp_all

lemma cleanLoop_plain:
  assumes "list_all plainElement es" and "es \<noteq> []"
    and "pre = [] \<and> out = [] \<or> out \<noteq> [] \<and> pre = out @ [Separator]"
  shows "cleanLoop (pre @ strings_Join es [Separator]) False (length pre) out 0 =
         pre @ strings_Join es [Separator]"
  using assms
proof (induction es arbitrary: pre out)
  case Nil
  then show ?case by simp
next
  case (Cons e es)
  from Cons.prems(1) have e: "plainElement e" and es: "list_all plainElement es" by simp_all
  from e have ne: "e \<noteq> []" by (simp add: plainElement_def)
  from Cons.prems(3) have out1: "(if out \<noteq> [] then out @ [Separator] else out) = pre" by auto
  let ?rest = "if es = [] then [] else [Separator] @ strings_Join es [Separator]"
  have path: "pre @ strings_Join (e # es) [Separator] = pre @ e @ ?rest"
    by (simp only: strings_Join_Cons)
  have rest: "?rest = [] \<or> hd ?rest = Separator" by simp
  have step: "cleanLoop (pre @ e @ ?rest) False (length pre) out 0 =
        cleanLoop (pre @ e @ ?rest) False (length pre + length e) (pre @ e) 0"
    using cleanLoop_element [OF e rest, of pre out] out1 by simp
  show ?case
  proof (cases "es = []")
    case True
    then have "cleanLoop (pre @ e @ ?rest) False (length pre + length e) (pre @ e) 0 = pre @ e"
      by (simp add: cleanLoop_finished)
    with step True show ?thesis by simp
  next
    case False
    have "cleanLoop ((pre @ e) @ Separator # strings_Join es [Separator]) False
            (length (pre @ e)) (pre @ e) 0 =
          cleanLoop ((pre @ e) @ Separator # strings_Join es [Separator]) False
            (Suc (length (pre @ e))) (pre @ e) 0"
      by (rule cleanLoop_separator)
    also have "\<dots> = cleanLoop ((pre @ e @ [Separator]) @ strings_Join es [Separator]) False
            (length (pre @ e @ [Separator])) (pre @ e) 0"
      by simp
    also have "\<dots> = (pre @ e @ [Separator]) @ strings_Join es [Separator]"
      using es False ne by (intro Cons.IH) simp_all
    finally show ?thesis using step False by (simp add: strings_Join_Cons)
  qed
qed

lemma Clean_plain:
  assumes "list_all plainElement es" and "es \<noteq> []"
  shows "Clean (strings_Join es [Separator]) = strings_Join es [Separator]"
proof -
  let ?p = "strings_Join es [Separator]"
  from assms obtain e es' where es: "es = e # es'" by (cases es) auto
  with assms(1) have e: "plainElement e" by simp
  then obtain a e' where a: "e = a # e'" "a \<noteq> Separator"
    by (cases e) (auto simp: plainElement_def)
  have ne: "?p \<noteq> []" and hd: "?p ! 0 = a"
    using es a by (simp_all add: strings_Join_Cons)
  have "cleanLoop ([] @ ?p) False (length ([]::string)) [] 0 = [] @ ?p"
    using assms by (intro cleanLoop_plain) simp_all
  then have "cleanLoop ?p False 0 [] 0 = ?p" by simp
  then show ?thesis using ne hd a(2) by (simp add: Clean_def IsPathSeparator_def Let_def)
qed

lemma filepath_Join_empty_wd:
  "filepath_Join [[], p] = (if p = [] then [] else Clean p)"
  by simp

lemma Post_Inr:
  assumes "Post g c = Inr (err, g')"
  shows "\<exists>c'. err = None \<and> g' = g\<lparr> postComments := postComments g @ [c'] \<rparr> \<and>
              comment_Path c' = filepath_Join [wd g, comment_Path c]"
proof -
  from assms obtain res d l where r: "cm_Result c = Some res" "fd_Diagnostic res = Some d"
    "diag_Location d = Some l"
    by (auto simp: Post_def split: option.splits)
  define c' where "c' = setLocationPath res d l (filepath_Join [wd g, loc_Path l]) c"
  have "err = None" and "g' = g\<lparr> postComments := postComments g @ [c'] \<rparr>"
    using assms r by (simp_all add: Post_def c'_def Let_def)
  moreover have "comment_Path c = loc_Path l"
    using r by (simp add: comment_Path_def comment_Diagnostic_def Location_GetPath_def
        Diagnostic_GetLocation_def)
  moreover have "comment_Path c' = filepath_Join [wd g, loc_Path l]"
    by (simp add: c'_def setLocationPath_def comment_Path_def comment_Diagnostic_def
        Location_GetPath_def Diagnostic_GetLocation_def)
  ultimately show ?thesis by auto
qed

section \<open>Evaluating the examples\<close>

lemmas build_defs =
  buildRobotComment_def gerritCommentLine_def buildFixSuggestion_def buildCommentRange_def
  Getenv_def Location_GetPath_def Location_GetRange_def Diagnostic_GetLocation_def
  Suggestion_GetRange_def Range_GetStart_def Position_GetLine_def appendRobotComment_def

lemmas example_defs =
  exampleSuggestion_def exampleComment_def exampleExternals_def exampleCommenter_def
  exampleEntry_def exampleFix_def exampleCall_def

lemmas vocabulary_defs =
  reportedAt_def isReportedAt_def entryIndex_def comment_InDiffFile_def
  comment_ShouldReport_def comment_Path_def comment_Diagnostic_def comment_Suggestions_def
  comment_FirstSuggestionInDiffContext_def comment_StartLine_def entriesAt_def listAt_def

text \<open>
  The scenario of a comment at line 10 that is not anchored by its suggestions, with
  suggestions at columns 3 to 5 and 7 to 9.
\<close>

lemma example_two_suggestions:
  "Flush exampleExternals
     (exampleCommenter [exampleComment ''a.go'' 10 True True False
        [exampleSuggestion 10 3 5 ''x'', exampleSuggestion 10 7 9 ''y'']]) [] =
   Inr (None,
        exampleCommenter [exampleComment ''a.go'' 10 True True False
          [exampleSuggestion 10 3 5 ''x'', exampleSuggestion 10 7 9 ''y'']],
        [exampleCall [''a.go'' \<mapsto>
           [exampleEntry 10 [exampleFix ''a.go'' 10 2 4 ''x'', exampleFix ''a.go'' 10 6 8 ''y'']]]])"
  by (simp add: Flush_def postAllComments_def build_defs example_defs)

text \<open>
  A comment at line 10 whose first suggestion, at line 7 and columns 3 to 5, is in the
  diff context.
\<close>

lemma example_first_suggestion:
  "Flush exampleExternals
     (exampleCommenter [exampleComment ''a.go'' 10 True True True [exampleSuggestion 7 3 5 ''x'']]) [] =
   Inr (None,
        exampleCommenter [exampleComment ''a.go'' 10 True True True [exampleSuggestion 7 3 5 ''x'']],
        [exampleCall [''a.go'' \<mapsto> [exampleEntry 7 [exampleFix ''a.go'' 7 2 4 ''x'']]]])"
  by (simp add: Flush_def postAllComments_def build_defs example_defs)

text \<open>Comments of two files, interleaved; and two comments of one file.\<close>

lemma example_two_paths:
  "Flush exampleExternals
     (exampleCommenter [exampleComment ''a.go'' 10 True True False [],
                        exampleComment ''b.go'' 5 True True False [],
                        exampleComment ''a.go'' 20 True True False []]) [] =
   Inr (None,
        exampleCommenter [exampleComment ''a.go'' 10 True True False [],
                          exampleComment ''b.go'' 5 True True False [],
                          exampleComment ''a.go'' 20 True True False []],
        [exampleCall [''a.go'' \<mapsto> [exampleEntry 10 [], exampleEntry 20 []],
                      ''b.go'' \<mapsto> [exampleEntry 5 []]]])"
  by (simp add: Flush_def postAllComments_def build_defs example_defs fun_eq_iff)

lemma example_two_comments:
  "Flush exampleExternals
     (exampleCommenter [exampleComment ''a.go'' 10 True True False [],
                        exampleComment ''a.go'' 20 True True False []]) [] =
   Inr (None,
        exampleCommenter [exampleComment ''a.go'' 10 True True False [],
                          exampleComment ''a.go'' 20 True True False []],
        [exampleCall [''a.go'' \<mapsto> [exampleEntry 10 [], exampleEntry 20 []]]])"
  by (simp add: Flush_def postAllComments_def build_defs example_defs fun_eq_iff)

lemma example_one_comment:
  "Flush exampleExternals (exampleCommenter [exampleComment ''a.go'' 10 True True False []]) calls =
   Inr (None, exampleCommenter [exampleComment ''a.go'' 10 True True False []],
        calls @ [exampleCall [''a.go'' \<mapsto> [exampleEntry 10 []]]])"
  by (simp add: Flush_def postAllComments_def build_defs example_defs)

lemma example_Clean_a_go: "Clean ''a.go'' = ''a.go''"
  by code_simp

lemma example_Clean_dot_a_go: "Clean ''./a.go'' = ''a.go''"
  by code_simp

lemma example_Post:
  "Post (exampleCommenter cs) (exampleComment ''a.go'' line inDiff report first suggestions) =
   Inr (None, exampleCommenter (cs @ [exampleComment ''a.go'' line inDiff report first suggestions]))"
  by (simp add: Post_def setLocationPath_def exampleCommenter_def exampleComment_def
      example_Clean_a_go)

lemma example_Post_path:
  "p \<noteq> [] \<Longrightarrow>
   Post (exampleCommenter cs) (exampleComment p line inDiff report first suggestions) =
   Inr (None, exampleCommenter (cs @ [exampleComment (Clean p) line inDiff report first suggestions]))"
  by (simp add: Post_def setLocationPath_def exampleCommenter_def exampleComment_def)

text \<open>The empty buffer, and a buffer whose comments are all skipped.\<close>

lemma example_Flush_submits_once:
  "Flush exampleExternals (exampleCommenter []) [] =
     Inr (None, exampleCommenter [], [exampleCall Map.empty]) \<and>
   Flush exampleExternals
     (exampleCommenter [exampleComment ''a.go'' 10 False True False [],
                        exampleComment ''a.go'' 20 True False False []])
     [exampleCall Map.empty] =
     Inr (None,
          exampleCommenter [exampleComment ''a.go'' 10 False True False [],
                            exampleComment ''a.go'' 20 True False False []],
          [exampleCall Map.empty, exampleCall Map.empty])"
proof -
  have a: "list_all flushable (postComments (exampleCommenter []))"
    by (simp add: exampleCommenter_def)
  have b: "list_all flushable (postComments
             (exampleCommenter [exampleComment ''a.go'' 10 False True False [],
                                exampleComment ''a.go'' 20 True False False []]))"
    by (simp add: exampleCommenter_def exampleComment_def flushable_def)
  show ?thesis
    using Flush_submits_once [OF a, of exampleExternals "[]"]
      Flush_submits_once [OF b, of exampleExternals "[exampleCall Map.empty]"]
    by (auto simp: vocabulary_defs example_defs)
qed

section \<open>Properties\<close>

text \<open>
  C1. The specification has a \<^verbatim>\<open>Flush\<close> whose submission succeeds drain the buffer, so
  that a second \<^verbatim>\<open>Flush\<close>, with no \<^verbatim>\<open>Post\<close> in between, submits no entry of a comment
  of the first submission. The code does not do this: \<^verbatim>\<open>postAllComments\<close> reads
  \<^verbatim>\<open>g.postComments\<close> and never assigns it (\<open>Flush_keeps_buffer\<close>). The theorem runs
  the code: one comment is posted and \<^verbatim>\<open>Flush\<close> is called twice, \<^verbatim>\<open>SetReview\<close>
  succeeding both times, and the second call submits the entry of the comment again.
\<close>

theorem Flush_twice_submits_again:
  "Post (exampleCommenter []) (exampleComment ''a.go'' 10 True True False []) =
     Inr (None, exampleCommenter [exampleComment ''a.go'' 10 True True False []]) \<and>
   Flush exampleExternals (exampleCommenter [exampleComment ''a.go'' 10 True True False []]) [] =
     Inr (None, exampleCommenter [exampleComment ''a.go'' 10 True True False []],
          [exampleCall [''a.go'' \<mapsto> [exampleEntry 10 []]]]) \<and>
   Flush exampleExternals (exampleCommenter [exampleComment ''a.go'' 10 True True False []])
       [exampleCall [''a.go'' \<mapsto> [exampleEntry 10 []]]] =
     Inr (None, exampleCommenter [exampleComment ''a.go'' 10 True True False []],
          [exampleCall [''a.go'' \<mapsto> [exampleEntry 10 []]],
           exampleCall [''a.go'' \<mapsto> [exampleEntry 10 []]]]) \<and>
   entriesAt (call_review (exampleCall [''a.go'' \<mapsto> [exampleEntry 10 []]])) ''a.go'' =
     [exampleEntry 10 []]"
  using example_Post [of "[]" 10 True True False "[]"]
  by (simp add: example_one_comment entriesAt_def listAt_def exampleCall_def)

text \<open>
  C2, as the code has it. For every buffered comment with
  \<^verbatim>\<open>FirstSuggestionInDiffContext\<close> true and at least one suggestion, the entry that
  \<^verbatim>\<open>Flush\<close> emits is anchored by a single line number, the start line of the first
  suggestion, and carries no range anchor. The first suggestion's range, with the
  character offsets \<open>startCol - 1\<close> and \<open>endCol - 1\<close>, is in the entry's first fix
  suggestion.
\<close>

theorem Flush_anchor_is_first_suggestion_line:
  assumes "Flush ext g calls = Inr (err, g', calls')"
    and "cs = reportedAt p (postComments g)"
    and "es = entriesAt (call_review (last calls')) p"
    and "i < length cs"
    and "comment_FirstSuggestionInDiffContext (cs ! i)"
    and "comment_Suggestions (cs ! i) = s # ss"
  shows "i < length es \<and>
         ci_Range (rc_CommentInput (es ! i)) = None \<and>
         sint (ci_Line (rc_CommentInput (es ! i))) =
           sint (Position_GetLine (Range_GetStart (Suggestion_GetRange s))) \<and>
         rc_FixSuggestions (es ! i) \<noteq> [] \<and>
         spec_fixEntry p s (hd (rc_FixSuggestions (es ! i)))"
proof -
  have i: "i < length es" and b: "buildRobotComment ext (cs ! i) = Inr (es ! i)"
    using Flush_entry [OF assms(1), of i p] assms(2,3,4) by simp_all
  have "cs ! i \<in> set (reportedAt p (postComments g))"
    using assms(2,4) by simp
  then have path: "comment_Path (cs ! i) = p"
    by (simp add: reportedAt_def)
  from buildRobotComment_Inr(2) [OF b] assms(5,6)
  have line: "ci_Line (rc_CommentInput (es ! i)) =
              scast (Position_GetLine (Range_GetStart (Suggestion_GetRange s)))"
    by (rule gerritCommentLine_suggestion)
  from appendFixSuggestions_all2 [OF buildRobotComment_Inr(3) [OF b]] assms(6)
  have "list_all2 (\<lambda>s f. buildFixSuggestion (cs ! i) s = Inr f) (s # ss) (rc_FixSuggestions (es ! i))"
    by simp
  then obtain f fs where fs: "rc_FixSuggestions (es ! i) = f # fs"
    and f: "buildFixSuggestion (cs ! i) s = Inr f"
    by (auto simp: list_all2_Cons1)
  from buildFixSuggestion_spec [OF f] path fs
  have "rc_FixSuggestions (es ! i) \<noteq> [] \<and> spec_fixEntry p s (hd (rc_FixSuggestions (es ! i)))"
    by simp
  then show ?thesis
    using i line buildRobotComment_Inr(1) [OF b] by (simp add: sint_scast_up)
qed

theorem Flush_anchor_is_first_suggestion_line_witness:
  "(case Flush exampleExternals
           (exampleCommenter [exampleComment ''a.go'' 10 True True True
              [exampleSuggestion 7 3 5 ''x'']]) [] of
      Inl e \<Rightarrow> False
    | Inr (err, g', calls') \<Rightarrow>
        ci_Range (rc_CommentInput (entriesAt (call_review (last calls')) ''a.go'' ! 0)) = None \<and>
        sint (ci_Line (rc_CommentInput (entriesAt (call_review (last calls')) ''a.go'' ! 0))) = 7 \<and>
        spec_fixEntry ''a.go'' (exampleSuggestion 7 3 5 ''x'')
          (hd (rc_FixSuggestions (entriesAt (call_review (last calls')) ''a.go'' ! 0))))"
  using Flush_anchor_is_first_suggestion_line [OF example_first_suggestion refl refl,
      of 0 "''a.go''" "exampleSuggestion 7 3 5 ''x''" "[]"]
  apply (subst example_first_suggestion)
  by (simp add: reportedAt_def comment_InDiffFile_def
      comment_ShouldReport_def comment_Path_def comment_Diagnostic_def comment_Suggestions_def
      comment_FirstSuggestionInDiffContext_def entriesAt_def listAt_def spec_fixEntry_def
      spec_zeroBasedRange_def build_defs example_defs)

text \<open>
  C2 as stated asks for a range anchor with the offsets 2 and 4 here; the entry has the
  line 7 and no range.
\<close>

theorem first_suggestion_range_anchor_counterexample:
  "Flush exampleExternals
     (exampleCommenter [exampleComment ''a.go'' 10 True True True [exampleSuggestion 7 3 5 ''x'']]) [] =
   Inr (None,
        exampleCommenter [exampleComment ''a.go'' 10 True True True [exampleSuggestion 7 3 5 ''x'']],
        [exampleCall [''a.go'' \<mapsto> [exampleEntry 7 [exampleFix ''a.go'' 7 2 4 ''x'']]]]) \<and>
   ci_Range (rc_CommentInput (exampleEntry 7 [exampleFix ''a.go'' 7 2 4 ''x''])) = None \<and>
   ci_Range (rc_CommentInput (exampleEntry 7 [exampleFix ''a.go'' 7 2 4 ''x''])) \<noteq>
     Some \<lparr> cr_StartLine = 7, cr_StartCharacter = 2, cr_EndLine = 7, cr_EndCharacter = 4 \<rparr>"
  using example_first_suggestion by (simp add: exampleEntry_def)

text \<open>
  C3. For every buffered comment with \<^verbatim>\<open>FirstSuggestionInDiffContext\<close> false, or with no
  suggestion, the entry that \<^verbatim>\<open>Flush\<close> emits for it is anchored by a line number equal
  to the start line of the diagnostic's location, and carries no range anchor. The
  entries of the path \<open>p\<close> correspond by position to the buffered comments that pass
  both filters and have the path \<open>p\<close>.
\<close>

theorem Flush_anchor_is_location_line:
  assumes "Flush ext g calls = Inr (err, g', calls')"
    and "cs = reportedAt p (postComments g)"
    and "es = entriesAt (call_review (last calls')) p"
    and "i < length cs"
    and "\<not> comment_FirstSuggestionInDiffContext (cs ! i) \<or> comment_Suggestions (cs ! i) = []"
  shows "i < length es \<and>
         sint (ci_Line (rc_CommentInput (es ! i))) = sint (comment_StartLine (cs ! i)) \<and>
         ci_Range (rc_CommentInput (es ! i)) = None"
proof -
  have i: "i < length es" and b: "buildRobotComment ext (cs ! i) = Inr (es ! i)"
    using Flush_entry [OF assms(1), of i p] assms(2,3,4) by simp_all
  from buildRobotComment_Inr(2) [OF b] assms(5)
  have "ci_Line (rc_CommentInput (es ! i)) = scast (comment_StartLine (cs ! i))"
    by (rule gerritCommentLine_location)
  then show ?thesis using i buildRobotComment_Inr(1) [OF b] by (simp add: sint_scast_up)
qed

theorem Flush_anchor_is_location_line_witness:
  "(case Flush exampleExternals
           (exampleCommenter [exampleComment ''a.go'' 10 True True False
              [exampleSuggestion 10 3 5 ''x'', exampleSuggestion 10 7 9 ''y'']]) [] of
      Inl e \<Rightarrow> False
    | Inr (err, g', calls') \<Rightarrow>
        sint (ci_Line (rc_CommentInput (entriesAt (call_review (last calls')) ''a.go'' ! 0))) = 10 \<and>
        ci_Range (rc_CommentInput (entriesAt (call_review (last calls')) ''a.go'' ! 0)) = None)"
  using Flush_anchor_is_location_line [OF example_two_suggestions refl refl, of 0 "''a.go''"]
  apply (subst example_two_suggestions)
  by (simp add: reportedAt_def comment_InDiffFile_def
      comment_ShouldReport_def comment_Path_def comment_Diagnostic_def
      comment_FirstSuggestionInDiffContext_def comment_StartLine_def build_defs example_defs)

text \<open>
  C4. A buffered comment with \<^verbatim>\<open>InDiffFile\<close> false contributes nothing to what
  \<^verbatim>\<open>Flush\<close> submits, whatever its other fields are: the outcome of \<^verbatim>\<open>Flush\<close> (the
  payload submitted, the error returned, or the panic) is the outcome on the buffer
  without that comment.
\<close>

theorem Flush_omits_not_in_diff_file:
  assumes "cm_Result c = Some res" and "\<not> fd_InDiffFile res"
  shows "submission (Flush ext (g\<lparr>postComments := xs @ c # ys\<rparr>) calls) =
         submission (Flush ext (g\<lparr>postComments := xs @ ys\<rparr>) calls)"
  using assms by (simp add: Flush_skip)

theorem Flush_omits_not_in_diff_file_witness:
  "submission (Flush exampleExternals
     (exampleCommenter [exampleComment ''a.go'' 10 True True False [],
                        exampleComment ''a.go'' 20 True True False [],
                        exampleComment ''a.go'' 30 False True True [None]]) []) =
   Inr (None, [exampleCall [''a.go'' \<mapsto> [exampleEntry 10 [], exampleEntry 20 []]]])"
proof -
  have "submission (Flush exampleExternals
          ((exampleCommenter [])\<lparr>postComments :=
             [exampleComment ''a.go'' 10 True True False [],
              exampleComment ''a.go'' 20 True True False []] @
             exampleComment ''a.go'' 30 False True True [None] # []\<rparr>) []) =
        submission (Flush exampleExternals
          ((exampleCommenter [])\<lparr>postComments :=
             [exampleComment ''a.go'' 10 True True False [],
              exampleComment ''a.go'' 20 True True False []] @ []\<rparr>) [])"
    by (rule Flush_omits_not_in_diff_file) (simp add: exampleComment_def)+
  moreover have "(exampleCommenter [])\<lparr>postComments := cs\<rparr> = exampleCommenter cs" for cs
    by (simp add: exampleCommenter_def)
  ultimately show ?thesis
    by (simp add: example_two_comments submission_def)
qed

text \<open>
  C5. A buffered comment with \<^verbatim>\<open>ShouldReport\<close> false contributes nothing to what
  \<^verbatim>\<open>Flush\<close> submits, also when its \<^verbatim>\<open>InDiffFile\<close> is true: the outcome of \<^verbatim>\<open>Flush\<close>
  is the outcome on the buffer without that comment.
\<close>

theorem Flush_omits_not_should_report:
  assumes "cm_Result c = Some res" and "\<not> fd_ShouldReport res"
  shows "submission (Flush ext (g\<lparr>postComments := xs @ c # ys\<rparr>) calls) =
         submission (Flush ext (g\<lparr>postComments := xs @ ys\<rparr>) calls)"
  using assms by (simp add: Flush_skip)

theorem Flush_omits_not_should_report_witness:
  "fd_InDiffFile (the (cm_Result (exampleComment ''a.go'' 15 True False False [None]))) \<and>
   submission (Flush exampleExternals
     (exampleCommenter [exampleComment ''a.go'' 10 True True False [],
                        exampleComment ''a.go'' 15 True False False [None],
                        exampleComment ''a.go'' 20 True True False []]) []) =
   Inr (None, [exampleCall [''a.go'' \<mapsto> [exampleEntry 10 [], exampleEntry 20 []]]])"
proof -
  have "submission (Flush exampleExternals
          ((exampleCommenter [])\<lparr>postComments :=
             [exampleComment ''a.go'' 10 True True False []] @
             exampleComment ''a.go'' 15 True False False [None] #
             [exampleComment ''a.go'' 20 True True False []]\<rparr>) []) =
        submission (Flush exampleExternals
          ((exampleCommenter [])\<lparr>postComments :=
             [exampleComment ''a.go'' 10 True True False []] @
             [exampleComment ''a.go'' 20 True True False []]\<rparr>) [])"
    by (rule Flush_omits_not_should_report) (simp add: exampleComment_def)+
  moreover have "(exampleCommenter [])\<lparr>postComments := cs\<rparr> = exampleCommenter cs" for cs
    by (simp add: exampleCommenter_def)
  moreover have "fd_InDiffFile (the (cm_Result (exampleComment ''a.go'' 15 True False False [None])))"
    by (simp add: exampleComment_def)
  ultimately show ?thesis
    by (simp add: example_two_comments submission_def)
qed

text \<open>
  C6. For every emitted entry, the list of fix suggestions is the image of the
  comment's suggestions, one to one and in their order (\<open>list_all2\<close>), whatever their
  number: each fix entry has one replacement, with the comment's path, the
  suggestion's text and the suggestion's range, the lines unchanged and the columns
  one less.
\<close>

theorem Flush_fix_suggestions:
  assumes "Flush ext g calls = Inr (err, g', calls')"
    and "cs = reportedAt p (postComments g)"
    and "es = entriesAt (call_review (last calls')) p"
    and "i < length cs"
  shows "i < length es \<and> comment_Path (cs ! i) = p \<and>
         list_all2 (spec_fixEntry (comment_Path (cs ! i)))
           (comment_Suggestions (cs ! i)) (rc_FixSuggestions (es ! i))"
proof -
  have i: "i < length es" and b: "buildRobotComment ext (cs ! i) = Inr (es ! i)"
    using Flush_entry [OF assms(1), of i p] assms(2,3,4) by simp_all
  have "cs ! i \<in> set (reportedAt p (postComments g))"
    using assms(2,4) by simp
  then have path: "comment_Path (cs ! i) = p"
    by (simp add: reportedAt_def)
  from appendFixSuggestions_all2 [OF buildRobotComment_Inr(3) [OF b]]
  have "list_all2 (\<lambda>s f. buildFixSuggestion (cs ! i) s = Inr f)
          (comment_Suggestions (cs ! i)) (rc_FixSuggestions (es ! i))"
    by simp
  then have "list_all2 (spec_fixEntry (comment_Path (cs ! i)))
          (comment_Suggestions (cs ! i)) (rc_FixSuggestions (es ! i))"
    by (rule list_all2_mono) (rule buildFixSuggestion_spec)
  with i path show ?thesis by simp
qed

theorem Flush_fix_suggestions_witness:
  "(case Flush exampleExternals
           (exampleCommenter [exampleComment ''a.go'' 10 True True False
              [exampleSuggestion 10 3 5 ''x'', exampleSuggestion 10 7 9 ''y'']]) [] of
      Inl e \<Rightarrow> False
    | Inr (err, g', calls') \<Rightarrow>
        list_all2 (spec_fixEntry ''a.go'')
          [exampleSuggestion 10 3 5 ''x'', exampleSuggestion 10 7 9 ''y'']
          (rc_FixSuggestions (entriesAt (call_review (last calls')) ''a.go'' ! 0)) \<and>
        rc_FixSuggestions (entriesAt (call_review (last calls')) ''a.go'' ! 0) =
          [exampleFix ''a.go'' 10 2 4 ''x'', exampleFix ''a.go'' 10 6 8 ''y''])"
  using Flush_fix_suggestions [OF example_two_suggestions refl refl, of 0 "''a.go''"]
  apply (subst example_two_suggestions)
  by (simp add: reportedAt_def comment_InDiffFile_def
      comment_ShouldReport_def comment_Path_def comment_Diagnostic_def comment_Suggestions_def
      entriesAt_def listAt_def spec_fixEntry_def spec_zeroBasedRange_def build_defs example_defs)

text \<open>
  C7. The entries are keyed by the path stored in the buffered comment (the path as
  \<^verbatim>\<open>Post\<close> rewrote it): the keys of the payload are the paths of the comments that pass
  both filters, and the list of a path is built, in the order of the buffer, from the
  comments reported under it. So of two such comments at the positions \<open>i < j\<close> of the
  buffer, the entry of the first stands before the entry of the second.
\<close>

theorem Flush_keeps_post_order:
  assumes "Flush ext g calls = Inr (err, g', calls')"
    and "buf = postComments g"
    and "review = call_review (last calls')"
  shows "dom (ri_RobotComments review) =
           comment_Path ` {c \<in> set buf. comment_InDiffFile c \<and> comment_ShouldReport c} \<and>
         list_all2 (\<lambda>c rc. buildRobotComment ext c = Inr rc)
           (reportedAt p buf) (entriesAt review p) \<and>
         (\<forall>i j. i < j \<and> j < length buf \<and> isReportedAt p (buf ! i) \<and> isReportedAt p (buf ! j) \<longrightarrow>
            entryIndex p buf i < entryIndex p buf j \<and>
            entryIndex p buf j < length (entriesAt review p) \<and>
            buildRobotComment ext (buf ! i) = Inr (entriesAt review p ! entryIndex p buf i) \<and>
            buildRobotComment ext (buf ! j) = Inr (entriesAt review p ! entryIndex p buf j))"
proof -
  from Flush_Inr [OF assms(1)] obtain m where
    m: "collectRobotComments ext (postComments g) Map.empty = Inr m"
    and c: "call_review (last calls') = \<lparr> ri_RobotComments = m \<rparr>"
    by auto
  have keys: "dom (ri_RobotComments review) =
      comment_Path ` {c \<in> set buf. comment_InDiffFile c \<and> comment_ShouldReport c}"
    using collect_dom [OF m] c assms(2,3) by simp
  have all2: "list_all2 (\<lambda>c rc. buildRobotComment ext c = Inr rc)
      (reportedAt p buf) (entriesAt review p)"
    using Flush_entries [OF assms(1), of p] assms(2,3) by simp
  have ord: "entryIndex p buf i < entryIndex p buf j \<and>
      entryIndex p buf j < length (entriesAt review p) \<and>
      buildRobotComment ext (buf ! i) = Inr (entriesAt review p ! entryIndex p buf i) \<and>
      buildRobotComment ext (buf ! j) = Inr (entriesAt review p ! entryIndex p buf j)"
    if ij: "i < j" "j < length buf" and ri: "isReportedAt p (buf ! i)" and rj: "isReportedAt p (buf ! j)"
    for i j
  proof -
    have i: "i < length buf" using ij by simp
    have len: "length (entriesAt review p) = length (reportedAt p buf)"
      using all2 by (simp add: list_all2_lengthD)
    have nth: "buildRobotComment ext (reportedAt p buf ! k) = Inr (entriesAt review p ! k)"
      if "k < length (reportedAt p buf)" for k
      using all2 that by (simp add: list_all2_conv_all_nth)
    have "entryIndex p buf i < entryIndex p buf j"
      using filter_take_mono [of i j buf "isReportedAt p"] ij ri
      by (simp add: entryIndex_def reportedAt_filter)
    moreover have ki: "entryIndex p buf i < length (reportedAt p buf)"
      and vi: "reportedAt p buf ! entryIndex p buf i = buf ! i"
      using filter_take_nth [of i buf "isReportedAt p"] i ri
      by (simp_all add: entryIndex_def reportedAt_filter)
    moreover have kj: "entryIndex p buf j < length (reportedAt p buf)"
      and vj: "reportedAt p buf ! entryIndex p buf j = buf ! j"
      using filter_take_nth [of j buf "isReportedAt p"] ij rj
      by (simp_all add: entryIndex_def reportedAt_filter)
    ultimately show ?thesis
      using nth [OF ki] nth [OF kj] len by simp
  qed
  from keys all2 ord show ?thesis by blast
qed

theorem Flush_keeps_post_order_witness:
  "(case Flush exampleExternals
           (exampleCommenter [exampleComment ''a.go'' 10 True True False [],
                              exampleComment ''b.go'' 5 True True False [],
                              exampleComment ''a.go'' 20 True True False []]) [] of
      Inl e \<Rightarrow> False
    | Inr (err, g', calls') \<Rightarrow>
        entryIndex ''a.go'' (postComments g') 0 = 0 \<and>
        entryIndex ''a.go'' (postComments g') 2 = 1 \<and>
        entryIndex ''a.go'' (postComments g') 0 < entryIndex ''a.go'' (postComments g') 2 \<and>
        entriesAt (call_review (last calls')) ''a.go'' = [exampleEntry 10 [], exampleEntry 20 []] \<and>
        buildRobotComment exampleExternals (postComments g' ! 0) =
          Inr (entriesAt (call_review (last calls')) ''a.go'' ! 0) \<and>
        buildRobotComment exampleExternals (postComments g' ! 2) =
          Inr (entriesAt (call_review (last calls')) ''a.go'' ! 1))"
proof -
  let ?buf = "[exampleComment ''a.go'' 10 True True False [],
               exampleComment ''b.go'' 5 True True False [],
               exampleComment ''a.go'' 20 True True False []]"
  have pre: "0 < (2::nat) \<and> 2 < length (postComments (exampleCommenter ?buf)) \<and>
             isReportedAt ''a.go'' (postComments (exampleCommenter ?buf) ! 0) \<and>
             isReportedAt ''a.go'' (postComments (exampleCommenter ?buf) ! 2)"
    by (simp add: vocabulary_defs build_defs example_defs)
  have idx: "entryIndex ''a.go'' (postComments (exampleCommenter ?buf)) 0 = 0"
    "entryIndex ''a.go'' (postComments (exampleCommenter ?buf)) 2 = 1"
    by (simp_all add: vocabulary_defs build_defs example_defs eval_nat_numeral)
  note T = Flush_keeps_post_order [OF example_two_paths refl refl, of "''a.go''"]
  note ord = T [THEN conjunct2, THEN conjunct2, rule_format, of 0 2, OF pre]
  have ents: "entriesAt (call_review (last [exampleCall [''a.go'' \<mapsto> [exampleEntry 10 [], exampleEntry 20 []],
                      ''b.go'' \<mapsto> [exampleEntry 5 []]]])) ''a.go'' = [exampleEntry 10 [], exampleEntry 20 []]"
    by (simp add: entriesAt_def listAt_def exampleCall_def)
  show ?thesis
    apply (subst example_two_paths)
    using ord idx ents by simp
qed

text \<open>
  C8. For every revision identifier \<open>R\<close>, \<^verbatim>\<open>Diff\<close> starts one process, with the command
  line \<^verbatim>\<open>git diff --find-renames R~ R\<close>, whatever the process does; git reads the
  suffix \<^verbatim>\<open>~\<close> as \<^verbatim>\<open>~1\<close>, the first parent. When the process cannot be started or
  exits non-zero, the result is that error wrapped with the prefix
  \<^verbatim>\<open>failed to run git diff: \<close>, and no second process is started; otherwise the
  result is the bytes of the standard output.
\<close>

theorem Diff_runs_git_diff_once:
  "snd (Diff run g started) =
     started @ [[''git'', ''diff'', ''--find-renames'', cd_revisionID g @ ''~'', cd_revisionID g]] \<and>
   fst (Diff run g started) =
     (case run [''git'', ''diff'', ''--find-renames'', cd_revisionID g @ ''~'', cd_revisionID g] of
        Inl err \<Rightarrow> Inl (Errorf ''failed to run git diff: '' err)
      | Inr bytes \<Rightarrow> Inr bytes)"
  by (simp add: Diff_def gitDiff_def Let_def split: sum.splits)

text \<open>
  C9, as the code has it. When the aggregator's working-directory prefix is empty,
  \<^verbatim>\<open>Post\<close> stores the path that \<^verbatim>\<open>filepath.Join\<close> returns for it: the empty path for the
  empty path, and otherwise the cleaned path. So \<^verbatim>\<open>Post\<close> leaves unchanged every
  relative path made of plain elements joined by single separators.
\<close>

theorem Post_empty_wd_path:
  assumes "wd g = []" and "Post g c = Inr (err, g')"
  shows "\<exists>c'. postComments g' = postComments g @ [c'] \<and>
              comment_Path c' = (if comment_Path c = [] then [] else Clean (comment_Path c)) \<and>
              (\<forall>es. es \<noteq> [] \<and> list_all plainElement es \<and>
                    comment_Path c = strings_Join es [Separator] \<longrightarrow>
                    comment_Path c' = comment_Path c)"
proof -
  from Post_Inr [OF assms(2)] obtain c' where
    g': "g' = g\<lparr> postComments := postComments g @ [c'] \<rparr>"
    and p: "comment_Path c' = filepath_Join [wd g, comment_Path c]"
    by blast
  have clean: "comment_Path c' = (if comment_Path c = [] then [] else Clean (comment_Path c))"
    using p assms(1) by simp
  have "comment_Path c' = comment_Path c"
    if "es \<noteq> []" "list_all plainElement es" "comment_Path c = strings_Join es [Separator]" for es
  proof -
    have "Clean (comment_Path c) = comment_Path c"
      using Clean_plain [OF that(2,1)] that(3) by simp
    then show ?thesis using clean by simp
  qed
  with g' clean show ?thesis by auto
qed

theorem Post_empty_wd_path_witness:
  "wd (exampleCommenter []) = [] \<and>
   Post (exampleCommenter []) (exampleComment ''src/a.go'' 10 True True False []) =
     Inr (None, exampleCommenter [exampleComment ''src/a.go'' 10 True True False []]) \<and>
   strings_Join [''src'', ''a.go''] [Separator] = ''src/a.go'' \<and>
   list_all plainElement [''src'', ''a.go''] \<and>
   comment_Path (last (postComments
     (exampleCommenter [exampleComment ''src/a.go'' 10 True True False []]))) = ''src/a.go''"
proof -
  have c: "Clean ''src/a.go'' = ''src/a.go''" by code_simp
  have w: "wd (exampleCommenter []) = []" by (simp add: exampleCommenter_def)
  have post: "Post (exampleCommenter []) (exampleComment ''src/a.go'' 10 True True False []) =
     Inr (None, exampleCommenter [exampleComment ''src/a.go'' 10 True True False []])"
    using example_Post_path [of "''src/a.go''" "[]"] c by simp
  have j: "strings_Join [''src'', ''a.go''] [Separator] = ''src/a.go''"
    by (simp add: Separator_def)
  have pl: "list_all plainElement [''src'', ''a.go'']"
    by (simp add: plainElement_def Separator_def)
  have cp: "comment_Path (exampleComment ''src/a.go'' 10 True True False []) = ''src/a.go''"
    by (simp add: vocabulary_defs build_defs exampleComment_def)
  from Post_empty_wd_path [OF w post] obtain c' where
    b: "postComments (exampleCommenter [exampleComment ''src/a.go'' 10 True True False []]) =
        postComments (exampleCommenter []) @ [c']"
    and u: "\<forall>es. es \<noteq> [] \<and> list_all plainElement es \<and>
              comment_Path (exampleComment ''src/a.go'' 10 True True False []) =
                strings_Join es [Separator] \<longrightarrow>
              comment_Path c' = comment_Path (exampleComment ''src/a.go'' 10 True True False [])"
    by blast
  from u [rule_format, of "[''src'', ''a.go'']"] pl j cp
  have "comment_Path c' = ''src/a.go''" by simp
  moreover from b have "last (postComments
     (exampleCommenter [exampleComment ''src/a.go'' 10 True True False []])) = c'"
    by simp
  ultimately show ?thesis using w post j pl by simp
qed

text \<open>
  C9 as stated covers every path. With an empty prefix, the path \<^verbatim>\<open>./a.go\<close> is stored
  as \<^verbatim>\<open>a.go\<close>.
\<close>

theorem Post_changes_path_counterexample:
  "wd (exampleCommenter []) = [] \<and>
   Post (exampleCommenter []) (exampleComment ''./a.go'' 10 True True False []) =
     Inr (None, exampleCommenter [exampleComment ''a.go'' 10 True True False []]) \<and>
   comment_Path (exampleComment ''./a.go'' 10 True True False []) = ''./a.go'' \<and>
   comment_Path (exampleComment ''a.go'' 10 True True False []) = ''a.go'' \<and>
   ''a.go'' \<noteq> ''./a.go''"
  using example_Post_path [of "''./a.go''" "[]" 10 True True False "[]"]
  by (simp add: example_Clean_dot_a_go vocabulary_defs build_defs exampleComment_def
      exampleCommenter_def)

text \<open>
  C10. The specification has every call of \<^verbatim>\<open>Flush\<close> make exactly one call of
  \<^verbatim>\<open>SetReview\<close> with the aggregator's change and revision identifiers, also for an
  empty buffer and for a buffer whose comments are all skipped. The code does so
  whenever it builds the payload (\<open>Flush_submits_once\<close>), but \<^verbatim>\<open>buildCommentRange\<close>
  reads \<^verbatim>\<open>s.Range.Start\<close> and \<^verbatim>\<open>s.Range.End\<close> by field access, where
  \<^verbatim>\<open>gerritCommentLine\<close> reads the same range through the nil-safe getters. The theorem
  runs the code: \<^verbatim>\<open>Post\<close> accepts a reported comment whose suggestion has no range, or
  a range without an end; \<^verbatim>\<open>Flush\<close> panics on it and makes no call of \<^verbatim>\<open>SetReview\<close>;
  \<^verbatim>\<open>gerritCommentLine\<close> returns on the same comment.
\<close>

theorem Flush_panics_before_submission:
  "Post (exampleCommenter [])
     (exampleComment ''a.go'' 10 True True True [Some \<lparr> sug_Range = None, sug_Text = ''x'' \<rparr>]) =
     Inr (None, exampleCommenter
       [exampleComment ''a.go'' 10 True True True [Some \<lparr> sug_Range = None, sug_Text = ''x'' \<rparr>]]) \<and>
   gerritCommentLine
     (exampleComment ''a.go'' 10 True True True [Some \<lparr> sug_Range = None, sug_Text = ''x'' \<rparr>]) =
     Inr 0 \<and>
   Flush exampleExternals
     (exampleCommenter [exampleComment ''a.go'' 10 True True True
        [Some \<lparr> sug_Range = None, sug_Text = ''x'' \<rparr>]]) [] = Inl NilDereference \<and>
   Post (exampleCommenter [])
     (exampleComment ''a.go'' 10 True True False
        [Some \<lparr> sug_Range = Some \<lparr> rng_Start = Some \<lparr> pos_Line = 10, pos_Column = 3 \<rparr>,
                                    rng_End = None \<rparr>, sug_Text = ''x'' \<rparr>]) =
     Inr (None, exampleCommenter
       [exampleComment ''a.go'' 10 True True False
          [Some \<lparr> sug_Range = Some \<lparr> rng_Start = Some \<lparr> pos_Line = 10, pos_Column = 3 \<rparr>,
                                      rng_End = None \<rparr>, sug_Text = ''x'' \<rparr>]]) \<and>
   Flush exampleExternals
     (exampleCommenter [exampleComment ''a.go'' 10 True True False
        [Some \<lparr> sug_Range = Some \<lparr> rng_Start = Some \<lparr> pos_Line = 10, pos_Column = 3 \<rparr>,
                                    rng_End = None \<rparr>, sug_Text = ''x'' \<rparr>]]) [] = Inl NilDereference"
proof -
  have "gerritCommentLine
     (exampleComment ''a.go'' 10 True True True [Some \<lparr> sug_Range = None, sug_Text = ''x'' \<rparr>]) =
     Inr 0"
    by (simp add: build_defs example_defs)
  moreover have "Flush exampleExternals
     (exampleCommenter [exampleComment ''a.go'' 10 True True True
        [Some \<lparr> sug_Range = None, sug_Text = ''x'' \<rparr>]]) [] = Inl NilDereference"
    by (simp add: Flush_def postAllComments_def build_defs example_defs)
  moreover have "Flush exampleExternals
     (exampleCommenter [exampleComment ''a.go'' 10 True True False
        [Some \<lparr> sug_Range = Some \<lparr> rng_Start = Some \<lparr> pos_Line = 10, pos_Column = 3 \<rparr>,
                                    rng_End = None \<rparr>, sug_Text = ''x'' \<rparr>]]) [] = Inl NilDereference"
    by (simp add: Flush_def postAllComments_def build_defs example_defs)
  ultimately show ?thesis
    using example_Post [of "[]" 10 True True True "[Some \<lparr> sug_Range = None, sug_Text = ''x'' \<rparr>]"]
      example_Post [of "[]" 10 True True False
        "[Some \<lparr> sug_Range = Some \<lparr> rng_Start = Some \<lparr> pos_Line = 10, pos_Column = 3 \<rparr>,
                                     rng_End = None \<rparr>, sug_Text = ''x'' \<rparr>]"]
    by simp
qed

end
